theory Spec2Isabelle
  imports Main "HOL-Library.Word" "HOL-Library.AList"
begin

section \<open>Data model of vixen/project.py\<close>

subsection \<open>Tag schema entries\<close>

text \<open>
  \<^verbatim>\<open>TagInfo.type = Enum("string", "int", "float", "bool")\<close>. A tag value is a Python
  string, int, float or bool; a float is kept as its IEEE double bit pattern, so that
  \<^verbatim>\<open>0.0\<close> is the pattern \<open>0\<close>.
\<close>

datatype tag_type = String_t | Int_t | Float_t | Bool_t

datatype tag_value = VStr string | VInt int | VFloat "64 word" | VBool bool

record TagInfo =
  tag_name :: string
  tag_type :: tag_type
  tag_default :: tag_value

text \<open>
  \<^verbatim>\<open>TagInfo._default_default\<close>: the map
  \<^verbatim>\<open>{"string": "", "int": 0, "float": 0.0, "bool": False}\<close> indexed by the type.
\<close>

fun default_default :: "tag_type \<Rightarrow> tag_value" where
  "default_default String_t = VStr []"
| "default_default Int_t = VInt 0"
| "default_default Float_t = VFloat 0"
| "default_default Bool_t = VBool False"

text \<open>\<^verbatim>\<open>TagInfo(name=n, type=t)\<close>: no explicit default, so the default comes from the type.\<close>

definition TagInfo_new :: "string \<Rightarrow> tag_type \<Rightarrow> TagInfo" where
  "TagInfo_new n t = \<lparr>tag_name = n, tag_type = t, tag_default = default_default t\<rparr>"

subsection \<open>Media records, files and directories\<close>

text \<open>
  Modelled from the spec: the class \<^verbatim>\<open>Media\<close> of vixen/media.py, a record with the path of
  its file and a mapping from tag names to tag values. The project code reads and writes
  only the \<^verbatim>\<open>tags\<close> dictionary; everything else that \<^verbatim>\<open>Media.from_path\<close> records about a
  file is kept as the path it was made from. Media objects are mutable and shared between
  \<^verbatim>\<open>Project.media\<close> and \<^verbatim>\<open>File.media\<close>, so they live in a store (a list of objects) and are
  referred to by their index.
\<close>

record Media =
  media_path :: string
  media_tags :: "string \<rightharpoonup> tag_value"

type_synonym ref = nat

type_synonym store = "Media list"

text \<open>
  Modelled from the spec: the classes \<^verbatim>\<open>File\<close> and \<^verbatim>\<open>Directory\<close> of vixen/directory.py. A
  file has a path, a name, a path relative to the root of the tree and a link to its media
  record, unset at first. A directory has a path, a name, a relative path, the extensions
  that filter its files, its files and its subdirectories; it is kept as the tree that a
  walk over \<^verbatim>\<open>files\<close> and \<^verbatim>\<open>directories\<close> observes.
\<close>

record File =
  file_path :: string
  file_name :: string
  file_relpath :: string
  file_media :: "ref option"

datatype Directory =
  Directory (dir_path: string) (dir_name: string) (dir_relpath: string)
    (dir_extensions: "string list") (dir_files: "File list")
    (dir_directories: "Directory list")

subsection \<open>The project\<close>

text \<open>
  The traits of \<^verbatim>\<open>Project\<close>. The dictionary \<^verbatim>\<open>media\<close> is an association list from
  relative paths to references; its order is the iteration order of the dictionary.
\<close>

record Project =
  name :: string
  description :: string
  path :: string
  root :: "Directory option"
  tags :: "TagInfo list"
  media :: "(string \<times> ref) list"
  extensions :: "string list"
  processors :: "string list"
  number_of_files :: nat
  save_file :: string
  last_save_time :: string

datatype error =
  KeyError string
  | IOError
  | ValueError
  | TraitError
  | AttributeError
  | TypeError
  | OSError

text \<open>\<^verbatim>\<open>Project._tags_default\<close>\<close>

definition tags_default :: "TagInfo list" where
  "tags_default = [TagInfo_new ''completed'' Bool_t]"

text \<open>
  A dictionary built from a sequence of pairs, \<^verbatim>\<open>dict((k, v) for ...)\<close>: a later pair
  with the same key replaces an earlier one.
\<close>

definition dict_of :: "('k \<times> 'v) list \<Rightarrow> ('k \<rightharpoonup> 'v)" where
  "dict_of kvs = map_of (rev kvs)"

section \<open>Tag schema migration\<close>

text \<open>
  The first loop of \<^verbatim>\<open>update_tags\<close>, over \<^verbatim>\<open>new_tags\<close>: a tag whose name is not in
  \<^verbatim>\<open>tag_info\<close> is added; a tag whose type differs from the recorded one is both removed
  and added. The result is the pair \<^verbatim>\<open>(removed, added)\<close>, in the order of the appends.
\<close>

fun classify :: "(string \<rightharpoonup> tag_type) \<Rightarrow> TagInfo list \<Rightarrow> TagInfo list \<times> TagInfo list" where
  "classify tag_info [] = ([], [])"
| "classify tag_info (t # ts) =
     (let (removed, added) = classify tag_info ts in
      case tag_info (tag_name t) of
        None \<Rightarrow> (removed, t # added)
      | Some ty \<Rightarrow> if ty \<noteq> tag_type t then (t # removed, t # added) else (removed, added))"

text \<open>
  \<^verbatim>\<open>for tag in removed: del m.tags[tag.name]\<close>. Deleting a missing key raises
  \<^verbatim>\<open>KeyError\<close>; the deletions made before it stay.
\<close>

fun del_tags :: "TagInfo list \<Rightarrow> (string \<rightharpoonup> tag_value) \<Rightarrow> error option \<times> (string \<rightharpoonup> tag_value)" where
  "del_tags [] m = (None, m)"
| "del_tags (t # ts) m =
     (if m (tag_name t) = None then (Some (KeyError (tag_name t)), m)
      else del_tags ts (m(tag_name t := None)))"

text \<open>\<^verbatim>\<open>for tag in added: m.tags[tag.name] = tag.default\<close>\<close>

fun set_tags :: "TagInfo list \<Rightarrow> (string \<rightharpoonup> tag_value) \<Rightarrow> (string \<rightharpoonup> tag_value)" where
  "set_tags [] m = m"
| "set_tags (t # ts) m = set_tags ts (m(tag_name t \<mapsto> tag_default t))"

text \<open>
  \<^verbatim>\<open>for m in self.media.values(): ...\<close> over the referenced objects of the store. A
  reference of a live dictionary always points into the store.
\<close>

fun migrate_records :: "TagInfo list \<Rightarrow> TagInfo list \<Rightarrow> ref list \<Rightarrow> store \<Rightarrow> error option \<times> store" where
  "migrate_records removed added [] h = (None, h)"
| "migrate_records removed added (r # rs) h =
     (let m = h ! r; (e, t1) = del_tags removed (media_tags m) in
      case e of
        Some err \<Rightarrow> (Some err, h[r := m\<lparr>media_tags := t1\<rparr>])
      | None \<Rightarrow> migrate_records removed added rs (h[r := m\<lparr>media_tags := set_tags added t1\<rparr>]))"

definition update_tags :: "TagInfo list \<Rightarrow> Project \<Rightarrow> store \<Rightarrow> error option \<times> Project \<times> store" where
  "update_tags new_tags p h =
     (let old_tags = tags p;
          new_tag_names = set (map tag_name new_tags);
          tag_info = dict_of (map (\<lambda>t. (tag_name t, tag_type t)) old_tags);
          (removed0, added) = classify tag_info new_tags;
          removed = removed0 @ filter (\<lambda>t. tag_name t \<notin> new_tag_names) old_tags;
          p' = p\<lparr>tags := new_tags\<rparr>;
          (e, h') = migrate_records removed added (map snd (media p')) h
      in (e, p', h'))"

text \<open>\<^verbatim>\<open>add_tags\<close>\<close>

definition add_tags :: "TagInfo list \<Rightarrow> Project \<Rightarrow> store \<Rightarrow> error option \<times> Project \<times> store" where
  "add_tags ts p h = update_tags (tags p @ ts) p h"

section \<open>Scanning\<close>

subsection \<open>What the project code asks of its collaborators\<close>

text \<open>
  The operating system and the two collaborator classes are parameters of the model.
  \<^item> \<open>expanduser\<close>, \<open>abspath\<close>, \<open>realpath\<close>: the functions of \<^verbatim>\<open>os.path\<close>.
  \<^item> \<open>Directory_new path extensions\<close>: the tree that \<^verbatim>\<open>Directory(path=..., extensions=...)\<close>
    shows to a walk over its \<^verbatim>\<open>files\<close> and \<^verbatim>\<open>directories\<close>.
  \<^item> \<open>Directory_refresh d\<close>: the node \<^verbatim>\<open>d\<close> after \<^verbatim>\<open>d.refresh()\<close>, which re-derives the
    file and subdirectory lists of the node and of its children from the filesystem.
  \<^item> \<open>Directory_set_extensions ext d\<close>: the node \<^verbatim>\<open>d\<close> after \<^verbatim>\<open>d.extensions = ext\<close>.
  \<^item> \<open>Media_from_path\<close>: \<^verbatim>\<open>Media.from_path\<close>.
  \<^item> \<open>clock\<close>: the time stamp that a file written now gets.
  The filesystem does not change while one operation runs, and every call of a collaborator
  returns: an exception that a collaborator raises is outside the model.
\<close>

record env =
  expanduser :: "string \<Rightarrow> string"
  abspath :: "string \<Rightarrow> string"
  realpath :: "string \<Rightarrow> string"
  Directory_new :: "string \<Rightarrow> string list \<Rightarrow> Directory"
  Directory_refresh :: "Directory \<Rightarrow> Directory"
  Directory_set_extensions :: "string list \<Rightarrow> Directory \<Rightarrow> Directory"
  Media_from_path :: "string \<Rightarrow> Media"
  clock :: string

text \<open>
  \<^verbatim>\<open>Project._create_media\<close>: a new object, at the next free index of the store, with a
  copy of \<^verbatim>\<open>default_tags\<close> as its tags.
\<close>

definition create_media :: "env \<Rightarrow> File \<Rightarrow> (string \<rightharpoonup> tag_value) \<Rightarrow> store \<Rightarrow> ref \<times> store" where
  "create_media e f default_tags h =
     (let m = (Media_from_path e (file_path f))\<lparr>media_tags := default_tags\<rparr>
      in (length h, h @ [m]))"

text \<open>
  \<^verbatim>\<open>Project._setup_root\<close>. The result is the project together with its root, which is
  never \<^verbatim>\<open>None\<close> afterwards.
\<close>

definition setup_root :: "env \<Rightarrow> Project \<Rightarrow> Project \<times> Directory" where
  "setup_root e p =
     (let path' = abspath e (expanduser e (path p)) in
      case root p of
        None \<Rightarrow>
          (let r = Directory_new e path' (extensions p) in (p\<lparr>root := Some r\<rparr>, r))
      | Some r0 \<Rightarrow>
          if realpath e (dir_path r0) \<noteq> realpath e path'
          then (let r = Directory_new e path' (extensions p) in (p\<lparr>root := Some r\<rparr>, r))
          else (p, r0))"

text \<open>
  The loop \<^verbatim>\<open>for f in dir.files\<close> of the local function \<^verbatim>\<open>_scan\<close>. The state is the
  store and the dictionary \<^verbatim>\<open>new_media\<close>; \<^verbatim>\<open>media\<close> is only read.
\<close>

fun scan_files ::
  "env \<Rightarrow> (string \<times> ref) list \<Rightarrow> (string \<rightharpoonup> tag_value) \<Rightarrow> File list \<Rightarrow>
   store \<times> (string \<times> ref) list \<Rightarrow> File list \<times> store \<times> (string \<times> ref) list" where
  "scan_files e media_d default_tags [] w = ([], w)"
| "scan_files e media_d default_tags (f # fs) (h, new_media) =
     (case map_of media_d (file_relpath f) of
        Some m \<Rightarrow>
          (let (fs', w') = scan_files e media_d default_tags fs (h, new_media)
           in (f\<lparr>file_media := Some m\<rparr> # fs', w'))
      | None \<Rightarrow>
          (let (m, h1) = create_media e f default_tags h;
               (fs', w') = scan_files e media_d default_tags fs
                             (h1, AList.update (file_relpath f) m new_media)
           in (f\<lparr>file_media := Some m\<rparr> # fs', w')))"

text \<open>A loop over child directories with a body that may not return.\<close>

fun walk_dirs ::
  "(Directory \<Rightarrow> 'w \<Rightarrow> (Directory \<times> 'w) option) \<Rightarrow> Directory list \<Rightarrow> 'w \<Rightarrow>
   (Directory list \<times> 'w) option" where
  "walk_dirs body [] w = Some ([], w)"
| "walk_dirs body (d # ds) w =
     (case body d w of
        None \<Rightarrow> None
      | Some (d', w1) \<Rightarrow>
          (case walk_dirs body ds w1 of
             None \<Rightarrow> None
           | Some (ds', w2) \<Rightarrow> Some (d' # ds', w2)))"

text \<open>
  The local function \<^verbatim>\<open>_scan\<close>. With \<^verbatim>\<open>refresh\<close> every child is re-derived from the
  filesystem before the walk descends into it, so the recursion is not structural: the
  first argument bounds the depth of the recursion, and \<open>None\<close> says that the bound was
  reached.
\<close>

fun scan_walk ::
  "nat \<Rightarrow> env \<Rightarrow> bool \<Rightarrow> (string \<times> ref) list \<Rightarrow> (string \<rightharpoonup> tag_value) \<Rightarrow> Directory \<Rightarrow>
   store \<times> (string \<times> ref) list \<Rightarrow> (Directory \<times> store \<times> (string \<times> ref) list) option" where
  "scan_walk 0 e refresh media_d default_tags d w = None"
| "scan_walk (Suc n) e refresh media_d default_tags d w =
     (let (fs', w1) = scan_files e media_d default_tags (dir_files d) w in
      case walk_dirs
             (\<lambda>c. scan_walk n e refresh media_d default_tags
                     (if refresh then Directory_refresh e c else c))
             (dir_directories d) w1 of
        None \<Rightarrow> None
      | Some (ds', w2) \<Rightarrow>
          Some (Directory (dir_path d) (dir_name d) (dir_relpath d) (dir_extensions d) fs' ds',
                w2))"

text \<open>\<^verbatim>\<open>default_tags = dict((ti.name, ti.default) for ti in self.tags)\<close>\<close>

definition default_tags_of :: "TagInfo list \<Rightarrow> (string \<rightharpoonup> tag_value)" where
  "default_tags_of ts = dict_of (map (\<lambda>ti. (tag_name ti, tag_default ti)) ts)"

text \<open>\<^verbatim>\<open>media_copy = dict(media); media_copy.update(new_media)\<close>\<close>

definition dict_update :: "('k \<times> 'v) list \<Rightarrow> ('k \<times> 'v) list \<Rightarrow> ('k \<times> 'v) list" where
  "dict_update d new = fold (\<lambda>(k, v). AList.update k v) new d"

text \<open>
  \<^verbatim>\<open>Project.scan\<close>, as the list of the states of the project and the store after each
  statement of its body: at entry, after \<^verbatim>\<open>_setup_root\<close>, after \<^verbatim>\<open>root.refresh()\<close>, after
  the walk, and, if \<^verbatim>\<open>new_media\<close> is not empty, after the assignment of \<^verbatim>\<open>media\<close> and
  after the assignment of \<^verbatim>\<open>number_of_files\<close>.
\<close>

definition scan_steps :: "nat \<Rightarrow> env \<Rightarrow> bool \<Rightarrow> Project \<Rightarrow> store \<Rightarrow> (Project \<times> store) list option" where
  "scan_steps fuel e refresh p h =
     (let media0 = media p;
          (p1, r1) = setup_root e p;
          default_tags = default_tags_of (tags p1);
          r2 = (if refresh then Directory_refresh e r1 else r1);
          p2 = p1\<lparr>root := Some r2\<rparr>
      in case scan_walk fuel e refresh media0 default_tags r2 (h, []) of
           None \<Rightarrow> None
         | Some (r3, h3, new_media) \<Rightarrow>
             (let p3 = p2\<lparr>root := Some r3\<rparr> in
              Some ([(p, h), (p1, h), (p2, h), (p3, h3)] @
                (if length new_media > 0
                 then (let p4 = p3\<lparr>media := dict_update media0 new_media\<rparr>
                       in [(p4, h3), (p4\<lparr>number_of_files := length (media p4)\<rparr>, h3)])
                 else []))))"

text \<open>The state in which \<^verbatim>\<open>scan\<close> returns.\<close>

definition scan :: "nat \<Rightarrow> env \<Rightarrow> bool \<Rightarrow> Project \<Rightarrow> store \<Rightarrow> (Project \<times> store) option" where
  "scan fuel e refresh p h = map_option last (scan_steps fuel e refresh p h)"

text \<open>\<^verbatim>\<open>Project.refresh\<close>\<close>

definition refresh :: "nat \<Rightarrow> env \<Rightarrow> Project \<Rightarrow> store \<Rightarrow> (Project \<times> store) option" where
  "refresh fuel e p h = scan fuel e True p h"

text \<open>
  \<^verbatim>\<open>Project()\<close>: every trait at its default value. Without a name the default of
  \<^verbatim>\<open>save_file\<close> is the empty string, and no time stamp is there to read.
\<close>

definition Project_new :: Project where
  "Project_new =
     \<lparr>name = [], description = [], path = [], root = None, tags = tags_default,
      media = [], extensions = [], processors = [], number_of_files = 0,
      save_file = [], last_save_time = []\<rparr>"

subsection \<open>Notions used to state the properties\<close>

text \<open>The files that a walk over a directory visits, in the order of the walk.\<close>

fun all_files :: "Directory \<Rightarrow> File list" where
  "all_files (Directory p n r x fs ds) = fs @ concat (map all_files ds)"

fun height :: "Directory \<Rightarrow> nat" where
  "height (Directory p n r x fs ds) = Suc (fold max (map height ds) 0)"

text \<open>A file whose relative path is not a key of the dictionary.\<close>

definition is_new :: "(string \<times> ref) list \<Rightarrow> File \<Rightarrow> bool" where
  "is_new M f \<longleftrightarrow> map_of M (file_relpath f) = None"

text \<open>
  The references of the dictionary \<^verbatim>\<open>media\<close>. The store is well-formed for a project
  when the keys of \<^verbatim>\<open>media\<close> are distinct (it is a dictionary), every reference points
  into the store, and no two keys share an object.
\<close>

definition refs :: "Project \<Rightarrow> ref list" where
  "refs p = map snd (media p)"

definition store_ok :: "Project \<Rightarrow> store \<Rightarrow> bool" where
  "store_ok p h \<longleftrightarrow>
     distinct (map fst (media p)) \<and> distinct (refs p) \<and> (\<forall>r\<in>set (refs p). r < length h)"

text \<open>The names of a schema are unique.\<close>

definition schema_ok :: "TagInfo list \<Rightarrow> bool" where
  "schema_ok ts \<longleftrightarrow> distinct (map tag_name ts)"

text \<open>The old schema has an entry of the same name and type as \<open>t\<close>.\<close>

definition same_entry :: "TagInfo list \<Rightarrow> TagInfo \<Rightarrow> bool" where
  "same_entry old t \<longleftrightarrow> (\<exists>t'\<in>set old. tag_name t' = tag_name t \<and> tag_type t' = tag_type t)"

section \<open>Save files\<close>

subsection \<open>Names of save files\<close>

text \<open>
  Strings are byte strings. \<^verbatim>\<open>str.lower\<close> maps the letters \<^verbatim>\<open>A\<close> to \<^verbatim>\<open>Z\<close> (codes 65 to 90)
  to \<^verbatim>\<open>a\<close> to \<^verbatim>\<open>z\<close>, which sets the bit of value 32; the classes \<^verbatim>\<open>\s\<close> and \<^verbatim>\<open>\w\<close> of
  \<^verbatim>\<open>re\<close> without flags are \<^verbatim>\<open>[ \t\n\r\f\v]\<close> and \<^verbatim>\<open>[a-zA-Z0-9_]\<close>.
\<close>

definition is_upper :: "char \<Rightarrow> bool" where
  "is_upper c \<longleftrightarrow> (let n = of_char c :: nat in 65 \<le> n \<and> n \<le> 90)"

fun lower_char :: "char \<Rightarrow> char" where
  "lower_char (Char b0 b1 b2 b3 b4 b5 b6 b7) =
     (if is_upper (Char b0 b1 b2 b3 b4 b5 b6 b7) then Char b0 b1 b2 b3 b4 True b6 b7
      else Char b0 b1 b2 b3 b4 b5 b6 b7)"

definition is_space :: "char \<Rightarrow> bool" where
  "is_space c \<longleftrightarrow> c \<in> {CHR '' '', CHR 0x09, CHR 0x0A, CHR 0x0B, CHR 0x0C, CHR 0x0D}"

definition is_word :: "char \<Rightarrow> bool" where
  "is_word c \<longleftrightarrow>
     (let n = of_char c :: nat in
      (48 \<le> n \<and> n \<le> 57) \<or> (65 \<le> n \<and> n \<le> 90) \<or> (97 \<le> n \<and> n \<le> 122) \<or> n = 95)"

text \<open>\<^verbatim>\<open>re.sub(r'\s+', '_', name)\<close>: one underscore at the end of every run of whitespace.\<close>

fun sub_spaces :: "string \<Rightarrow> string" where
  "sub_spaces [] = []"
| "sub_spaces [c] = (if is_space c then ''_'' else [c])"
| "sub_spaces (c # d # cs) =
     (if is_space c then (if is_space d then sub_spaces (d # cs) else CHR ''_'' # sub_spaces (d # cs))
      else c # sub_spaces (d # cs))"

text \<open>\<^verbatim>\<open>sanitize_name\<close>; \<^verbatim>\<open>re.sub(r'\W+', '', name)\<close> keeps the word characters.\<close>

definition sanitize_name :: "string \<Rightarrow> string" where
  "sanitize_name n = filter is_word (sub_spaces (map lower_char n))"

text \<open>
  The functions of \<^verbatim>\<open>posixpath\<close> that the module uses. \<open>rfind_split p\<close> is the pair
  \<^verbatim>\<open>(p[:i], p[i:])\<close> for \<^verbatim>\<open>i = p.rfind('/') + 1\<close>.
\<close>

definition rfind_split :: "string \<Rightarrow> string \<times> string" where
  "rfind_split p =
     (let tail = rev (takeWhile (\<lambda>c. c \<noteq> CHR ''/'') (rev p))
      in (take (length p - length tail) p, tail))"

definition basename :: "string \<Rightarrow> string" where
  "basename p = snd (rfind_split p)"

definition rstrip_slash :: "string \<Rightarrow> string" where
  "rstrip_slash p = rev (dropWhile (\<lambda>c. c = CHR ''/'') (rev p))"

definition dirname :: "string \<Rightarrow> string" where
  "dirname p =
     (let head = fst (rfind_split p)
      in if head \<noteq> [] \<and> head \<noteq> replicate (length head) CHR ''/'' then rstrip_slash head
         else head)"

definition join :: "string \<Rightarrow> string \<Rightarrow> string" where
  "join a b =
     (if b \<noteq> [] \<and> hd b = CHR ''/'' then b
      else if a = [] \<or> last a = CHR ''/'' then a @ b
      else a @ ''/'' @ b)"

text \<open>
  \<^verbatim>\<open>splitext\<close>: the extension starts at the last dot of the last component, unless only
  dots stand before it in that component.
\<close>

definition splitext :: "string \<Rightarrow> string \<times> string" where
  "splitext p =
     (let (head, tail) = rfind_split p;
          ext = rev (takeWhile (\<lambda>c. c \<noteq> CHR ''.'') (rev tail));
          stem = take (length tail - length ext - 1) tail
      in if CHR ''.'' \<in> set tail \<and> (\<exists>c\<in>set stem. c \<noteq> CHR ''.'')
         then (head @ stem, CHR ''.'' # ext)
         else (p, []))"

subsection \<open>The filesystem\<close>

text \<open>
  The persisted document, as \<^verbatim>\<open>json.load\<close> returns it: a field that the document lacks
  is \<open>None\<close>. The type of a tag is a string in the document.

  Modelled from the spec: the export of a \<^verbatim>\<open>Media\<close> record (\<^verbatim>\<open>to_dict\<close>) and the state of
  a \<^verbatim>\<open>Directory\<close> (\<^verbatim>\<open>__getstate__\<close>) are structured values from which an equivalent
  object is made again; they are kept as a record and a tree of the same shape.
\<close>

record document =
  doc_version :: "int option"
  doc_path :: "string option"
  doc_name :: "string option"
  doc_description :: "string option"
  doc_tags :: "(string \<times> string) list option"
  doc_media :: "(string \<times> Media) list option"
  doc_root :: "Directory option"
  doc_processors :: "string list option"

text \<open>
  A file holds a JSON document or something that \<^verbatim>\<open>json.load\<close> rejects (as a file just
  opened for writing does), and has a time stamp (\<^verbatim>\<open>st_ctime\<close>, formatted).
\<close>

datatype file_content = Json document | Not_json

record disk_file =
  content :: file_content
  ctime :: string

type_synonym filesystem = "string \<rightharpoonup> disk_file"

definition exists_file :: "filesystem \<Rightarrow> string \<Rightarrow> bool" where
  "exists_file fs p \<longleftrightarrow> fs p \<noteq> None"

text \<open>\<^verbatim>\<open>get_file_saved_time\<close>; \<^verbatim>\<open>os.stat\<close> raises \<^verbatim>\<open>OSError\<close> for a missing file.\<close>

definition get_file_saved_time :: "filesystem \<Rightarrow> string \<Rightarrow> error + string" where
  "get_file_saved_time fs p = (case fs p of None \<Rightarrow> Inl OSError | Some f \<Rightarrow> Inr (ctime f))"

text \<open>\<^verbatim>\<open>shutil.move\<close> of a file to a path that is not a directory.\<close>

definition move :: "filesystem \<Rightarrow> string \<Rightarrow> string \<Rightarrow> filesystem" where
  "move fs src dst = (fs(dst := fs src))(src := None)"

text \<open>\<^verbatim>\<open>get_non_existing_filename\<close>\<close>

definition get_non_existing_filename :: "filesystem \<Rightarrow> string \<Rightarrow> string" where
  "get_non_existing_filename fs fname =
     (if exists_file fs fname
      then (let (base, ext) = splitext (basename fname)
            in join (dirname fname) (base @ ''_a'' @ ext))
      else fname)"

text \<open>\<^verbatim>\<open>get_project_dir\<close>; that it makes the directory when it is missing is left out.\<close>

definition get_project_dir :: "env \<Rightarrow> string" where
  "get_project_dir e = expanduser e (join ''~'' ''.vixen'')"

text \<open>
  \<^verbatim>\<open>Project._save_file_default\<close>: the value of the trait \<^verbatim>\<open>save_file\<close> when none has been
  set. The field \<open>save_file\<close> of the project is the value that reading the trait gives.
\<close>

definition save_file_default :: "env \<Rightarrow> filesystem \<Rightarrow> Project \<Rightarrow> string" where
  "save_file_default e fs p =
     (if length (name p) > 0
      then (let fname = sanitize_name (name p) @ ''.vxn''; d = get_project_dir e
            in get_non_existing_filename fs (join d fname))
      else [])"

text \<open>\<^verbatim>\<open>Project._name_changed\<close>\<close>

definition name_changed :: "string \<Rightarrow> Project \<Rightarrow> filesystem \<Rightarrow> Project \<times> filesystem" where
  "name_changed nm p fs =
     (if length nm > 0
      then (let old_save_file = save_file p;
                old_dir = dirname old_save_file;
                new_save_file = join old_dir (sanitize_name nm @ ''.vxn'')
            in if new_save_file \<noteq> old_save_file
               then (let p' = p\<lparr>save_file := new_save_file\<rparr>
                     in if exists_file fs old_save_file
                        then (p', move fs old_save_file (save_file p'))
                        else (p', fs))
               else (p, fs))
      else (p, fs))"

text \<open>
  An assignment to the trait \<^verbatim>\<open>name\<close>: the handler \<^verbatim>\<open>_name_changed\<close> runs after the
  assignment when the value is a different one.
\<close>

definition set_name :: "string \<Rightarrow> Project \<Rightarrow> filesystem \<Rightarrow> Project \<times> filesystem" where
  "set_name nm p fs = (if nm = name p then (p, fs) else name_changed nm (p\<lparr>name := nm\<rparr>) fs)"

text \<open>
  An assignment to the trait \<^verbatim>\<open>extensions\<close>, with the handler \<^verbatim>\<open>_extensions_changed\<close>,
  which assigns the extensions of the root.
\<close>

definition set_extensions :: "env \<Rightarrow> string list \<Rightarrow> Project \<Rightarrow> Project" where
  "set_extensions e ext p =
     (if ext = extensions p then p
      else (let p' = p\<lparr>extensions := ext\<rparr>
            in case root p' of
                 None \<Rightarrow> p'
               | Some r \<Rightarrow> p'\<lparr>root := Some (Directory_set_extensions e ext r)\<rparr>))"

subsection \<open>Saving\<close>

text \<open>The names of the types, as \<^verbatim>\<open>json.dump\<close> writes them.\<close>

fun type_name :: "tag_type \<Rightarrow> string" where
  "type_name String_t = ''string''"
| "type_name Int_t = ''int''"
| "type_name Float_t = ''float''"
| "type_name Bool_t = ''bool''"

text \<open>
  Modelled from the spec: \<^verbatim>\<open>Media.to_dict\<close> exports the contents of the record, and
  \<^verbatim>\<open>Media(**kw)\<close> makes a record with these contents.
\<close>

definition Media_to_dict :: "Media \<Rightarrow> Media" where
  "Media_to_dict m = m"

definition Media_from_dict :: "Media \<Rightarrow> Media" where
  "Media_from_dict kw = kw"

text \<open>
  Modelled from the spec: \<^verbatim>\<open>Directory.__getstate__\<close> captures the path, name, extensions
  and the expanded files and directories of the whole subtree; the link of a file to its
  record is not persisted. \<^verbatim>\<open>Directory.__setstate__\<close> makes the tree from the captured
  value, without access to the filesystem.
\<close>

fun Directory_getstate :: "Directory \<Rightarrow> Directory" where
  "Directory_getstate (Directory p n r x fs ds) =
     Directory p n r x (map (\<lambda>f. f\<lparr>file_media := None\<rparr>) fs) (map Directory_getstate ds)"

definition Directory_setstate :: "Directory \<Rightarrow> Directory" where
  "Directory_setstate st = st"

text \<open>The dictionary that \<^verbatim>\<open>save_as\<close> dumps, for a project with the root \<open>r\<close>.\<close>

definition document_of :: "Project \<Rightarrow> store \<Rightarrow> Directory \<Rightarrow> document" where
  "document_of p h r =
     \<lparr>doc_version = Some 1, doc_path = Some (path p), doc_name = Some (name p),
      doc_description = Some (description p),
      doc_tags = Some (map (\<lambda>t. (tag_name t, type_name (tag_type t))) (tags p)),
      doc_media = Some (map (\<lambda>(k, r). (k, Media_to_dict (h ! r))) (media p)),
      doc_root = Some (Directory_getstate r),
      doc_processors = Some (processors p)\<rparr>"

text \<open>
  \<^verbatim>\<open>Project.save_as\<close> with a file name. Opening the file for writing empties it; without a
  root, \<^verbatim>\<open>self.root.__getstate__()\<close> raises \<^verbatim>\<open>AttributeError\<close> and the file stays empty.
  The processors are opaque descriptors that \<^verbatim>\<open>processor.dump\<close> and \<^verbatim>\<open>processor.load\<close>
  pass through.
\<close>

definition save_as :: "env \<Rightarrow> string \<Rightarrow> Project \<Rightarrow> store \<Rightarrow> filesystem \<Rightarrow> error option \<times> filesystem" where
  "save_as e fp p h fs =
     (let fs1 = fs(fp \<mapsto> \<lparr>content = Not_json, ctime = clock e\<rparr>)
      in case root p of
           None \<Rightarrow> (Some AttributeError, fs1)
         | Some r \<Rightarrow> (None, fs1(fp \<mapsto> \<lparr>content = Json (document_of p h r), ctime = clock e\<rparr>)))"

text \<open>\<^verbatim>\<open>Project.save\<close> and \<^verbatim>\<open>Project._update_last_save_time\<close>\<close>

definition update_last_save_time :: "filesystem \<Rightarrow> Project \<Rightarrow> error option \<times> Project" where
  "update_last_save_time fs p =
     (case get_file_saved_time fs (save_file p) of
        Inl err \<Rightarrow> (Some err, p)
      | Inr t \<Rightarrow> (None, p\<lparr>last_save_time := t\<rparr>))"

definition save :: "env \<Rightarrow> Project \<Rightarrow> store \<Rightarrow> filesystem \<Rightarrow> error option \<times> Project \<times> filesystem" where
  "save e p h fs =
     (if length (save_file p) > 0
      then (case save_as e (save_file p) p h fs of
              (Some err, fs') \<Rightarrow> (Some err, p, fs')
            | (None, fs') \<Rightarrow>
                (let (err, p') = update_last_save_time fs' p in (err, p', fs')))
      else (Some IOError, p, fs))"

subsection \<open>Loading\<close>

definition parse_type :: "string \<Rightarrow> tag_type option" where
  "parse_type s =
     (if s = ''string'' then Some String_t
      else if s = ''int'' then Some Int_t
      else if s = ''float'' then Some Float_t
      else if s = ''bool'' then Some Bool_t
      else None)"

text \<open>
  \<^verbatim>\<open>[TagInfo(name=x[0], type=x[1]) for x in data['tags']]\<close>; a type outside the
  enumeration raises \<^verbatim>\<open>TraitError\<close>.
\<close>

fun load_tags :: "(string \<times> string) list \<Rightarrow> TagInfo list option" where
  "load_tags [] = Some []"
| "load_tags ((n, t) # xs) =
     (case parse_type t of
        None \<Rightarrow> None
      | Some ty \<Rightarrow> map_option ((#) (TagInfo_new n ty)) (load_tags xs))"

text \<open>
  \<^verbatim>\<open>dict((key, Media(**kw)) for key, kw in data['media'])\<close>: every pair makes a new
  object; a later pair with the same key replaces the earlier entry.
\<close>

fun load_media ::
  "(string \<times> Media) list \<Rightarrow> (string \<times> ref) list \<Rightarrow> store \<Rightarrow> (string \<times> ref) list \<times> store" where
  "load_media [] d h = (d, h)"
| "load_media ((k, kw) # xs) d h =
     load_media xs (AList.update k (length h) d) (h @ [Media_from_dict kw])"

text \<open>
  The assignments of \<^verbatim>\<open>Project.load\<close> after \<^verbatim>\<open>json.load\<close>, up to the final scan. The
  result is the error raised, if any, with the project, the store and the filesystem as
  they are then. A document without \<^verbatim>\<open>path\<close> makes the assignment of \<^verbatim>\<open>None\<close> to a string
  trait fail; a document without \<^verbatim>\<open>root\<close> makes \<^verbatim>\<open>__setstate__(None)\<close> fail.
\<close>

definition load_fields ::
  "env \<Rightarrow> document \<Rightarrow> Project \<Rightarrow> store \<Rightarrow> filesystem \<Rightarrow>
   error option \<times> Project \<times> store \<times> filesystem" where
  "load_fields e data p h fs =
     (let (p1, fs1) = set_name (case doc_name data of None \<Rightarrow> [] | Some n \<Rightarrow> n) p fs;
          p2 = p1\<lparr>description := (case doc_description data of None \<Rightarrow> [] | Some d \<Rightarrow> d)\<rparr>
      in case doc_path data of
           None \<Rightarrow> (Some TraitError, p2, h, fs1)
         | Some path' \<Rightarrow>
      (let p3 = p2\<lparr>path := path'\<rparr>
       in case doc_tags data of
            None \<Rightarrow> (Some (KeyError ''tags''), p3, h, fs1)
          | Some ts \<Rightarrow>
       (case load_tags ts of
            None \<Rightarrow> (Some TraitError, p3, h, fs1)
          | Some tags' \<Rightarrow>
       (let p4 = p3\<lparr>tags := tags'\<rparr>;
            p5 = p4\<lparr>processors := (case doc_processors data of None \<Rightarrow> [] | Some ps \<Rightarrow> ps)\<rparr>
        in case doc_media data of
             None \<Rightarrow> (Some (KeyError ''media''), p5, h, fs1)
           | Some ms \<Rightarrow>
       (let (media', h1) = load_media ms [] h;
            p6 = p5\<lparr>media := media'\<rparr>
        in case doc_root data of
             None \<Rightarrow> (Some TypeError, p6, h1, fs1)
           | Some st \<Rightarrow>
       (let root' = Directory_setstate st;
            p7 = set_extensions e (dir_extensions root') p6;
            p8 = p7\<lparr>root := Some root'\<rparr>;
            p9 = p8\<lparr>number_of_files := length (media p8)\<rparr>
        in (None, p9, h1, fs1)))))))"

text \<open>
  \<^verbatim>\<open>Project.load\<close> after \<^verbatim>\<open>json.load\<close>: the assignments, then \<^verbatim>\<open>self.scan()\<close>. \<open>None\<close>
  says that the scan did not return within the bound.
\<close>

definition load_data ::
  "nat \<Rightarrow> env \<Rightarrow> document \<Rightarrow> Project \<Rightarrow> store \<Rightarrow> filesystem \<Rightarrow>
   (error option \<times> Project \<times> store \<times> filesystem) option" where
  "load_data fuel e data p h fs =
     (case load_fields e data p h fs of
        (Some err, s) \<Rightarrow> Some (Some err, s)
      | (None, p9, h1, fs1) \<Rightarrow>
          (case scan fuel e False p9 h1 of
             None \<Rightarrow> None
           | Some (p10, h2) \<Rightarrow> Some (None, p10, h2, fs1)))"

text \<open>
  \<^verbatim>\<open>Project.load\<close> with a file name or without an argument. Opening a missing file raises
  \<^verbatim>\<open>IOError\<close>; \<^verbatim>\<open>json.load\<close> raises \<^verbatim>\<open>ValueError\<close> for a file that is not a document.
\<close>

definition load ::
  "nat \<Rightarrow> env \<Rightarrow> string option \<Rightarrow> Project \<Rightarrow> store \<Rightarrow> filesystem \<Rightarrow>
   (error option \<times> Project \<times> store \<times> filesystem) option" where
  "load fuel e fp p h fs =
     (if fp = None \<and> \<not> exists_file fs (save_file p) then Some (None, p, h, fs)
      else (let src = (case fp of None \<Rightarrow> save_file p | Some f \<Rightarrow> f)
            in case fs src of
                 None \<Rightarrow> Some (Some IOError, p, h, fs)
               | Some f \<Rightarrow>
                   (case content f of
                      Not_json \<Rightarrow> Some (Some ValueError, p, h, fs)
                    | Json data \<Rightarrow> load_data fuel e data p h fs)))"

subsection \<open>Notions used to state the properties of load and save\<close>

text \<open>The document that \<^verbatim>\<open>load\<close> reads, if there is one.\<close>

definition source_document :: "filesystem \<Rightarrow> string option \<Rightarrow> Project \<Rightarrow> document option" where
  "source_document fs fp p =
     (case fs (case fp of None \<Rightarrow> save_file p | Some f \<Rightarrow> f) of
        None \<Rightarrow> None
      | Some f \<Rightarrow> (case content f of Json data \<Rightarrow> Some data | Not_json \<Rightarrow> None))"

text \<open>The dictionary \<^verbatim>\<open>media\<close> by relative path and tag contents.\<close>

definition media_view :: "Project \<Rightarrow> store \<Rightarrow> (string \<times> (string \<rightharpoonup> tag_value)) list" where
  "media_view p h = map (\<lambda>(k, r). (k, media_tags (h ! r))) (media p)"

section \<open>Concrete projects\<close>

text \<open>
  A project with the default schema and the records of two files: the starting point of the
  migration example.
\<close>

definition ex_project :: Project where
  "ex_project =
     \<lparr>name = ''demo'', description = [], path = ''/data'', root = None,
      tags = tags_default, media = [(''a.txt'', 0), (''b.txt'', 1)], extensions = [], processors = [],
      number_of_files = 2, save_file = [], last_save_time = []\<rparr>"

definition ex_store :: store where
  "ex_store =
     [\<lparr>media_path = ''/data/a.txt'', media_tags = [''completed'' \<mapsto> VBool False]\<rparr>,
      \<lparr>media_path = ''/data/b.txt'', media_tags = [''completed'' \<mapsto> VBool True]\<rparr>]"

definition ex_rating :: TagInfo where
  "ex_rating = TagInfo_new ''rating'' Int_t"


text \<open>
  A filesystem for the project: the directory \<^verbatim>\<open>/data\<close> with the files \<^verbatim>\<open>a.txt\<close>,
  \<^verbatim>\<open>c.txt\<close> and \<^verbatim>\<open>sub/d.txt\<close>; and the project and the store after a scan of it.
\<close>

definition ex_tree :: Directory where
  "ex_tree =
     Directory ''/data'' ''data'' [] []
       [\<lparr>file_path = ''/data/a.txt'', file_name = ''a.txt'', file_relpath = ''a.txt'',
          file_media = None\<rparr>,
        \<lparr>file_path = ''/data/c.txt'', file_name = ''c.txt'', file_relpath = ''c.txt'',
          file_media = None\<rparr>]
       [Directory ''/data/sub'' ''sub'' ''sub'' []
          [\<lparr>file_path = ''/data/sub/d.txt'', file_name = ''d.txt'',
             file_relpath = ''sub/d.txt'', file_media = None\<rparr>] []]"

definition ex_env :: env where
  "ex_env =
     \<lparr>expanduser = (\<lambda>p. p), abspath = (\<lambda>p. p), realpath = (\<lambda>p. p),
      Directory_new = (\<lambda>p x. ex_tree), Directory_refresh = (\<lambda>d. d),
      Directory_set_extensions = (\<lambda>x d. d),
      Media_from_path = (\<lambda>p. \<lparr>media_path = p, media_tags = Map.empty\<rparr>),
      clock = ''Mon Jan  1 00:00:00 2018''\<rparr>"


definition ex_tree_linked :: Directory where
  "ex_tree_linked =
     Directory ''/data'' ''data'' [] []
       [\<lparr>file_path = ''/data/a.txt'', file_name = ''a.txt'', file_relpath = ''a.txt'',
          file_media = Some 0\<rparr>,
        \<lparr>file_path = ''/data/c.txt'', file_name = ''c.txt'', file_relpath = ''c.txt'',
          file_media = Some 2\<rparr>]
       [Directory ''/data/sub'' ''sub'' ''sub'' []
          [\<lparr>file_path = ''/data/sub/d.txt'', file_name = ''d.txt'',
             file_relpath = ''sub/d.txt'', file_media = Some 3\<rparr>] []]"

definition ex_project_scanned :: Project where
  "ex_project_scanned =
     ex_project\<lparr>root := Some ex_tree_linked,
       media := [(''a.txt'', 0), (''b.txt'', 1), (''c.txt'', 2), (''sub/d.txt'', 3)],
       number_of_files := 4\<rparr>"

definition ex_store_scanned :: store where
  "ex_store_scanned =
     ex_store @
     [\<lparr>media_path = ''/data/c.txt'', media_tags = [''completed'' \<mapsto> VBool False]\<rparr>,
      \<lparr>media_path = ''/data/sub/d.txt'', media_tags = [''completed'' \<mapsto> VBool False]\<rparr>]"


text \<open>A file with a document that lacks \<^verbatim>\<open>tags\<close> and \<^verbatim>\<open>root\<close>.\<close>

definition ex_bad_document :: document where
  "ex_bad_document =
     \<lparr>doc_version = Some 1, doc_path = Some ''/other'', doc_name = Some ''other'',
      doc_description = Some ''text'', doc_tags = None, doc_media = Some [],
      doc_root = None, doc_processors = None\<rparr>"

definition ex_bad_fs :: filesystem where
  "ex_bad_fs = [''/tmp/bad.vxn'' \<mapsto> \<lparr>content = Json ex_bad_document, ctime = clock ex_env\<rparr>]"

text \<open>
  The project before its first scan, with a root that has files without records; the
  scanned project with a save file; a catalog with two save files; and a project with a
  name that needs sanitizing.
\<close>

definition ex_unscanned :: Project where
  "ex_unscanned = ex_project\<lparr>root := Some ex_tree\<rparr>"

definition ex_saved :: Project where
  "ex_saved = ex_project_scanned\<lparr>save_file := ''/cat/demo.vxn''\<rparr>"


definition ex_catalog :: filesystem where
  "ex_catalog =
     [''~/.vixen/my_project.vxn'' \<mapsto> \<lparr>content = Not_json, ctime = clock ex_env\<rparr>,
      ''/cat/demo.vxn'' \<mapsto> \<lparr>content = Not_json, ctime = clock ex_env\<rparr>]"

definition ex_named :: Project where
  "ex_named = ex_saved\<lparr>name := ''My  Project (v2)!''\<rparr>"


section \<open>Properties of the tag schema migration\<close>

lemma dict_of_None: "dict_of kvs k = None \<longleftrightarrow> k \<notin> fst ` set kvs"
  by (simp add: dict_of_def map_of_eq_None_iff)

lemma dict_of_distinct:
  "distinct (map fst kvs) \<Longrightarrow> (k, v) \<in> set kvs \<Longrightarrow> dict_of kvs k = Some v"
  by (simp add: dict_of_def distinct_rev rev_map [symmetric])

lemma dict_of_Some_mem: "dict_of kvs k = Some v \<Longrightarrow> (k, v) \<in> set kvs"
  by (auto simp: dict_of_def dest: map_of_SomeD)

lemma classify_eq:
  "classify ti ts =
     (filter (\<lambda>t. \<exists>ty. ti (tag_name t) = Some ty \<and> ty \<noteq> tag_type t) ts,
      filter (\<lambda>t. ti (tag_name t) \<noteq> Some (tag_type t)) ts)"
  by (induction ts) (auto split: option.splits)

lemma del_tags_ok:
  "distinct (map tag_name ts) \<Longrightarrow> tag_name ` set ts \<subseteq> dom m \<Longrightarrow>
   del_tags ts m = (None, m |` (- tag_name ` set ts))"
proof (induction ts arbitrary: m)
  case Nil
  then show ?case by simp
next
  case (Cons t ts)
  from Cons.prems have d: "distinct (map tag_name ts)" and nt: "tag_name t \<notin> tag_name ` set ts"
    and sub: "tag_name ` set ts \<subseteq> dom (m(tag_name t := None))" and mt: "m (tag_name t) \<noteq> None"
    by (auto simp: image_iff)
  have "del_tags ts (m(tag_name t := None)) = (None, (m(tag_name t := None)) |` (- tag_name ` set ts))"
    using Cons.IH [OF d sub] .
  moreover have "(m(tag_name t := None)) |` (- tag_name ` set ts) = m |` (- tag_name ` set (t # ts))"
    by (auto simp: restrict_map_def fun_eq_iff)
  ultimately show ?case using mt by simp
qed

lemma set_tags_other: "k \<notin> tag_name ` set ts \<Longrightarrow> set_tags ts m k = m k"
  by (induction ts arbitrary: m) auto

lemma set_tags_mem:
  "distinct (map tag_name ts) \<Longrightarrow> t \<in> set ts \<Longrightarrow> set_tags ts m (tag_name t) = Some (tag_default t)"
  by (induction ts arbitrary: m) (auto simp: set_tags_other)

lemma dom_set_tags: "dom (set_tags ts m) = dom m \<union> tag_name ` set ts"
  by (induction ts arbitrary: m) auto


lemma tag_info_None:
  "dict_of (map (\<lambda>t. (tag_name t, tag_type t)) old) n = None \<longleftrightarrow> n \<notin> tag_name ` set old"
  by (auto simp: dict_of_None image_iff)

lemma tag_info_Some:
  assumes "distinct (map tag_name old)"
  shows "dict_of (map (\<lambda>t. (tag_name t, tag_type t)) old) n = Some ty \<longleftrightarrow>
         (\<exists>t\<in>set old. tag_name t = n \<and> tag_type t = ty)"
proof
  assume "dict_of (map (\<lambda>t. (tag_name t, tag_type t)) old) n = Some ty"
  then have "(n, ty) \<in> set (map (\<lambda>t. (tag_name t, tag_type t)) old)"
    by (rule dict_of_Some_mem)
  then show "\<exists>t\<in>set old. tag_name t = n \<and> tag_type t = ty" by auto
next
  assume "\<exists>t\<in>set old. tag_name t = n \<and> tag_type t = ty"
  then have mem: "(n, ty) \<in> set (map (\<lambda>t. (tag_name t, tag_type t)) old)" by force
  have "distinct (map fst (map (\<lambda>t. (tag_name t, tag_type t)) old))"
    using assms by (simp add: comp_def)
  then show "dict_of (map (\<lambda>t. (tag_name t, tag_type t)) old) n = Some ty"
    using mem by (rule dict_of_distinct)
qed

lemma migrate_records_ok:
  assumes "distinct rs" and "\<forall>r\<in>set rs. r < length h"
    and "distinct (map tag_name removed)"
    and "\<forall>r\<in>set rs. tag_name ` set removed \<subseteq> dom (media_tags (h ! r))"
  shows "\<exists>h'. migrate_records removed added rs h = (None, h') \<and> length h' = length h \<and>
     (\<forall>i<length h. h' ! i =
        (if i \<in> set rs
         then (h ! i)\<lparr>media_tags := set_tags added (media_tags (h ! i) |` (- tag_name ` set removed))\<rparr>
         else h ! i))"
  using assms
proof (induction rs arbitrary: h)
  case Nil
  then show ?case by simp
next
  case (Cons r rs)
  let ?m = "h ! r"
  let ?t1 = "media_tags ?m |` (- tag_name ` set removed)"
  let ?h1 = "h[r := ?m\<lparr>media_tags := set_tags added ?t1\<rparr>]"
  from Cons.prems have r: "r < length h" and rn: "r \<notin> set rs" and d: "distinct rs" by auto
  have del: "del_tags removed (media_tags ?m) = (None, ?t1)"
    using Cons.prems by (intro del_tags_ok) auto
  have pre1: "\<forall>x\<in>set rs. x < length ?h1" using Cons.prems by simp
  have pre2: "\<forall>x\<in>set rs. tag_name ` set removed \<subseteq> dom (media_tags (?h1 ! x))"
    using Cons.prems rn by (auto simp: nth_list_update)
  from Cons.IH [OF d pre1 Cons.prems(3) pre2]
  obtain h' where run: "migrate_records removed added rs ?h1 = (None, h')"
    and len: "length h' = length ?h1"
    and pt: "\<forall>i<length ?h1. h' ! i =
        (if i \<in> set rs
         then (?h1 ! i)\<lparr>media_tags := set_tags added (media_tags (?h1 ! i) |` (- tag_name ` set removed))\<rparr>
         else ?h1 ! i)"
    by blast
  have step: "migrate_records removed added (r # rs) h = (None, h')"
    using del run by simp
  have "\<forall>i<length h. h' ! i =
        (if i \<in> set (r # rs)
         then (h ! i)\<lparr>media_tags := set_tags added (media_tags (h ! i) |` (- tag_name ` set removed))\<rparr>
         else h ! i)"
    using pt rn r by (auto simp: nth_list_update)
  with step len show ?case by simp
qed


text \<open>
  C1. When the names of the old schema and of the new schema are unique, no two keys of
  \<^verbatim>\<open>media\<close> share a record and the keys of every record's tag mapping are the names of
  the old schema, \<^verbatim>\<open>update_tags(new_tags)\<close> returns without an error and sets \<^verbatim>\<open>tags\<close> to
  \<^verbatim>\<open>new_tags\<close> as given. Afterwards the keys of every record's tag mapping are the names of
  the new schema; a tag of the new schema keeps its value when the old schema has an
  entry of the same name and type, and has the default value of the new entry otherwise;
  and a tag of the old schema whose name is not in the new schema is gone. Nothing else
  in the store changes.
\<close>

theorem update_tags_migrates:
  assumes st: "store_ok p h"
    and old: "schema_ok (tags p)" and new: "schema_ok new_tags"
    and keys: "\<forall>r\<in>set (refs p). dom (media_tags (h ! r)) = tag_name ` set (tags p)"
  shows "\<exists>h'. update_tags new_tags p h = (None, p\<lparr>tags := new_tags\<rparr>, h') \<and>
     length h' = length h \<and>
     (\<forall>r\<in>set (refs p).
        dom (media_tags (h' ! r)) = tag_name ` set new_tags \<and>
        media_path (h' ! r) = media_path (h ! r) \<and>
        (\<forall>t\<in>set new_tags.
           media_tags (h' ! r) (tag_name t) =
             (if same_entry (tags p) t then media_tags (h ! r) (tag_name t)
              else Some (tag_default t))) \<and>
        (\<forall>t\<in>set (tags p). tag_name t \<notin> tag_name ` set new_tags \<longrightarrow>
           media_tags (h' ! r) (tag_name t) = None)) \<and>
     (\<forall>i<length h. i \<notin> set (refs p) \<longrightarrow> h' ! i = h ! i)"
proof -
  define ti where "ti = dict_of (map (\<lambda>t. (tag_name t, tag_type t)) (tags p))"
  define changed where
    "changed = filter (\<lambda>t. \<exists>ty. ti (tag_name t) = Some ty \<and> ty \<noteq> tag_type t) new_tags"
  define gone where
    "gone = filter (\<lambda>t. tag_name t \<notin> set (map tag_name new_tags)) (tags p)"
  define removed where "removed = changed @ gone"
  define added where "added = filter (\<lambda>t. ti (tag_name t) \<noteq> Some (tag_type t)) new_tags"
  from old have dold: "distinct (map tag_name (tags p))" by (simp add: schema_ok_def)
  from new have dnew: "distinct (map tag_name new_tags)" by (simp add: schema_ok_def)
  have ti_Some: "ti n = Some ty \<longleftrightarrow> (\<exists>t\<in>set (tags p). tag_name t = n \<and> tag_type t = ty)"
    for n ty unfolding ti_def by (rule tag_info_Some [OF dold])
  have added_iff: "t \<in> set added \<longleftrightarrow> t \<in> set new_tags \<and> \<not> same_entry (tags p) t" for t
    by (simp add: added_def ti_Some same_entry_def)
  have changed_iff: "t \<in> set changed \<longleftrightarrow>
      t \<in> set new_tags \<and> (\<exists>t'\<in>set (tags p). tag_name t' = tag_name t \<and> tag_type t' \<noteq> tag_type t)"
    for t by (auto simp: changed_def ti_Some)
  have gone_iff: "t \<in> set gone \<longleftrightarrow> t \<in> set (tags p) \<and> tag_name t \<notin> tag_name ` set new_tags"
    for t by (simp add: gone_def)
  have uniq_new: "t' = t"
    if "t' \<in> set new_tags" "t \<in> set new_tags" "tag_name t' = tag_name t" for t t'
    using dnew that by (meson distinct_map inj_onD)
  have uniq_old: "t' = t"
    if "t' \<in> set (tags p)" "t \<in> set (tags p)" "tag_name t' = tag_name t" for t t'
    using dold that by (meson distinct_map inj_onD)
  have dchanged: "distinct (map tag_name changed)"
    unfolding changed_def using dnew by (rule distinct_map_filter)
  have dgone: "distinct (map tag_name gone)"
    unfolding gone_def using dold by (rule distinct_map_filter)
  have disj: "tag_name ` set changed \<inter> tag_name ` set gone = {}"
  proof -
    have False if "a \<in> set changed" "b \<in> set gone" "tag_name a = tag_name b" for a b
    proof -
      from that(1) have "a \<in> set new_tags" by (simp add: changed_iff)
      then have "tag_name b \<in> tag_name ` set new_tags" using that(3) by (metis imageI)
      with that(2) show False by (simp add: gone_iff)
    qed
    then show ?thesis by blast
  qed
  have drem: "distinct (map tag_name removed)"
    using dchanged dgone disj by (simp add: removed_def)
  have rem_old: "tag_name ` set removed \<subseteq> tag_name ` set (tags p)"
  proof
    fix n assume "n \<in> tag_name ` set removed"
    then obtain t where t: "t \<in> set removed" and n: "n = tag_name t" by blast
    from t have "t \<in> set changed \<or> t \<in> set gone" by (simp add: removed_def)
    then show "n \<in> tag_name ` set (tags p)"
    proof
      assume "t \<in> set changed"
      then obtain t' where "t' \<in> set (tags p)" "tag_name t' = tag_name t"
        by (auto simp: changed_iff)
      then show ?thesis using n by (metis imageI)
    next
      assume "t \<in> set gone"
      then show ?thesis using n by (simp add: gone_iff)
    qed
  qed
  have dadd: "distinct (map tag_name added)"
    unfolding added_def using dnew by (rule distinct_map_filter)
  have cls: "classify ti new_tags = (changed, added)"
    by (simp add: classify_eq changed_def added_def)
  have upd: "update_tags new_tags p h =
      (let (e, h') = migrate_records removed added (refs p) h in (e, p\<lparr>tags := new_tags\<rparr>, h'))"
    unfolding update_tags_def Let_def ti_def [symmetric] cls
    by (simp add: removed_def gone_def refs_def)
  from st have dr: "distinct (refs p)" and vr: "\<forall>r\<in>set (refs p). r < length h"
    by (simp_all add: store_ok_def)
  have sub: "\<forall>r\<in>set (refs p). tag_name ` set removed \<subseteq> dom (media_tags (h ! r))"
    using keys rem_old by simp
  from migrate_records_ok [OF dr vr drem sub, of added]
  obtain h' where run: "migrate_records removed added (refs p) h = (None, h')"
    and len: "length h' = length h"
    and pt: "\<forall>i<length h. h' ! i =
        (if i \<in> set (refs p)
         then (h ! i)\<lparr>media_tags := set_tags added (media_tags (h ! i) |` (- tag_name ` set removed))\<rparr>
         else h ! i)"
    by blast
  have res: "update_tags new_tags p h = (None, p\<lparr>tags := new_tags\<rparr>, h')"
    using upd run by simp
  have rec: "dom (media_tags (h' ! r)) = tag_name ` set new_tags \<and>
        media_path (h' ! r) = media_path (h ! r) \<and>
        (\<forall>t\<in>set new_tags.
           media_tags (h' ! r) (tag_name t) =
             (if same_entry (tags p) t then media_tags (h ! r) (tag_name t)
              else Some (tag_default t))) \<and>
        (\<forall>t\<in>set (tags p). tag_name t \<notin> tag_name ` set new_tags \<longrightarrow>
           media_tags (h' ! r) (tag_name t) = None)"
    if r: "r \<in> set (refs p)" for r
  proof -
    define m where "m = media_tags (h ! r)"
    define m' where "m' = media_tags (h' ! r)"
    from r vr have rl: "r < length h" by simp
    from r keys have dm: "dom m = tag_name ` set (tags p)" by (simp add: m_def)
    from pt rl r have h'r: "h' ! r = (h ! r)\<lparr>media_tags := set_tags added (m |` (- tag_name ` set removed))\<rparr>"
      by (simp add: m_def)
    have m'_eq: "m' = set_tags added (m |` (- tag_name ` set removed))"
      by (simp add: m'_def h'r)
    have pth: "media_path (h' ! r) = media_path (h ! r)"
      by (simp add: h'r)
    have keep: "m' k = m k" if "k \<notin> tag_name ` set added" "k \<notin> tag_name ` set removed" for k
      using that by (simp add: m'_eq set_tags_other)
    have drop: "m' k = None" if "k \<notin> tag_name ` set added" "k \<in> tag_name ` set removed" for k
      using that by (simp add: m'_eq set_tags_other)
    have fresh: "m' (tag_name t) = Some (tag_default t)" if "t \<in> set added" for t
      unfolding m'_eq using dadd that by (rule set_tags_mem)
    have val: "m' (tag_name t) = (if same_entry (tags p) t then m (tag_name t) else Some (tag_default t))"
      if t: "t \<in> set new_tags" for t
    proof (cases "same_entry (tags p) t")
      case True
      have na: "tag_name t \<notin> tag_name ` set added"
      proof
        assume "tag_name t \<in> tag_name ` set added"
        then obtain t' where t': "t' \<in> set added" "tag_name t' = tag_name t" by auto
        then have "t' \<in> set new_tags" by (simp add: added_iff)
        with t' t have "t' = t" by (blast intro: uniq_new)
        with t' True show False by (simp add: added_iff)
      qed
      have nr: "tag_name t \<notin> tag_name ` set removed"
      proof
        assume "tag_name t \<in> tag_name ` set removed"
        then obtain t' where t': "t' \<in> set removed" "tag_name t' = tag_name t" by auto
        then have "t' \<in> set changed \<or> t' \<in> set gone" by (simp add: removed_def)
        then show False
        proof
          assume c: "t' \<in> set changed"
          then have "t' \<in> set new_tags" by (simp add: changed_iff)
          with t' t have "t' = t" by (blast intro: uniq_new)
          with c obtain a where a: "a \<in> set (tags p)" "tag_name a = tag_name t" "tag_type a \<noteq> tag_type t"
            by (auto simp: changed_iff)
          from True obtain b where b: "b \<in> set (tags p)" "tag_name b = tag_name t" "tag_type b = tag_type t"
            by (auto simp: same_entry_def)
          from a b have "a = b" by (intro uniq_old) simp_all
          with a b show False by simp
        next
          assume "t' \<in> set gone"
          then have "tag_name t' \<notin> tag_name ` set new_tags" by (simp add: gone_iff)
          with t t' show False by (metis imageI)
        qed
      qed
      from keep [OF na nr] True show ?thesis by simp
    next
      case False
      with t have "t \<in> set added" by (simp add: added_iff)
      then have "m' (tag_name t) = Some (tag_default t)" by (rule fresh)
      with False show ?thesis by simp
    qed
    have gone': "m' (tag_name t) = None"
      if t: "t \<in> set (tags p)" and nn: "tag_name t \<notin> tag_name ` set new_tags" for t
    proof -
      have na: "tag_name t \<notin> tag_name ` set added"
      proof
        assume "tag_name t \<in> tag_name ` set added"
        then obtain t' where "t' \<in> set added" "tag_name t' = tag_name t" by auto
        then have "tag_name t \<in> tag_name ` set new_tags" by (metis added_iff imageI)
        with nn show False by simp
      qed
      have "t \<in> set removed" using t nn by (simp add: removed_def gone_iff)
      then have "tag_name t \<in> tag_name ` set removed" by (rule imageI)
      with na show ?thesis by (rule drop)
    qed
    have dom': "dom m' = tag_name ` set new_tags"
    proof (rule set_eqI)
      fix k
      show "k \<in> dom m' \<longleftrightarrow> k \<in> tag_name ` set new_tags"
      proof (cases "k \<in> tag_name ` set new_tags")
        case True
        then obtain t where t: "t \<in> set new_tags" and k: "k = tag_name t" by blast
        have "m' (tag_name t) \<noteq> None"
        proof (cases "same_entry (tags p) t")
          case se: True
          then have "tag_name t \<in> tag_name ` set (tags p)"
            unfolding same_entry_def by (metis imageI)
          then have "m (tag_name t) \<noteq> None" using dm by blast
          with val [OF t] se show ?thesis by simp
        next
          case False
          with val [OF t] show ?thesis by simp
        qed
        with True k show ?thesis by (simp add: dom_def)
      next
        case False
        have na: "k \<notin> tag_name ` set added"
        proof
          assume "k \<in> tag_name ` set added"
          then obtain t' where "t' \<in> set added" "k = tag_name t'" by blast
          then have "k \<in> tag_name ` set new_tags" by (metis added_iff imageI)
          with False show False by simp
        qed
        have "m' k = None"
        proof (cases "k \<in> tag_name ` set (tags p)")
          case True
          then obtain t where "t \<in> set (tags p)" "k = tag_name t" by blast
          with gone' False show ?thesis by simp
        next
          case nk: False
          then have mk: "m k = None" using dm by blast
          show ?thesis
          proof (cases "k \<in> tag_name ` set removed")
            case True
            with na show ?thesis by (rule drop)
          next
            case False
            with na have "m' k = m k" by (rule keep)
            with mk show ?thesis by simp
          qed
        qed
        with False show ?thesis by (simp add: dom_def)
      qed
    qed
    from dom' pth val gone' show ?thesis unfolding m_def m'_def by blast
  qed
  have frame: "\<forall>i<length h. i \<notin> set (refs p) \<longrightarrow> h' ! i = h ! i"
    using pt by simp
  from res len rec frame show ?thesis by blast
qed


theorem update_tags_migrates_witness:
  "store_ok ex_project ex_store \<and> schema_ok (tags ex_project) \<and>
   schema_ok (tags_default @ [ex_rating]) \<and>
   (\<exists>h'. update_tags (tags_default @ [ex_rating]) ex_project ex_store =
            (None, ex_project\<lparr>tags := tags_default @ [ex_rating]\<rparr>, h') \<and>
         dom (media_tags (h' ! 0)) = {''completed'', ''rating''} \<and>
         media_tags (h' ! 0) ''completed'' = Some (VBool False) \<and>
         media_tags (h' ! 0) ''rating'' = Some (VInt 0))"
proof -
  let ?new = "tags_default @ [ex_rating]"
  have st: "store_ok ex_project ex_store"
    by (simp add: store_ok_def refs_def ex_project_def ex_store_def)
  have old: "schema_ok (tags ex_project)"
    by (simp add: schema_ok_def ex_project_def tags_default_def)
  have new: "schema_ok ?new"
    by (simp add: schema_ok_def tags_default_def ex_rating_def TagInfo_new_def)
  have keys: "\<forall>r\<in>set (refs ex_project).
      dom (media_tags (ex_store ! r)) = tag_name ` set (tags ex_project)"
    by (simp add: refs_def ex_project_def ex_store_def tags_default_def TagInfo_new_def)
  from update_tags_migrates [OF st old new keys]
  obtain h' where run: "update_tags ?new ex_project ex_store = (None, ex_project\<lparr>tags := ?new\<rparr>, h')"
    and rec: "\<forall>r\<in>set (refs ex_project).
        dom (media_tags (h' ! r)) = tag_name ` set ?new \<and>
        media_path (h' ! r) = media_path (ex_store ! r) \<and>
        (\<forall>t\<in>set ?new.
           media_tags (h' ! r) (tag_name t) =
             (if same_entry (tags ex_project) t then media_tags (ex_store ! r) (tag_name t)
              else Some (tag_default t))) \<and>
        (\<forall>t\<in>set (tags ex_project). tag_name t \<notin> tag_name ` set ?new \<longrightarrow>
           media_tags (h' ! r) (tag_name t) = None)"
    by blast
  have r0: "0 \<in> set (refs ex_project)" by (simp add: refs_def ex_project_def)
  from rec r0 have d: "dom (media_tags (h' ! 0)) = tag_name ` set ?new"
    and v: "\<forall>t\<in>set ?new.
           media_tags (h' ! 0) (tag_name t) =
             (if same_entry (tags ex_project) t then media_tags (ex_store ! 0) (tag_name t)
              else Some (tag_default t))"
    by blast+
  from d have d': "dom (media_tags (h' ! 0)) = {''completed'', ''rating''}"
    by (simp add: tags_default_def ex_rating_def TagInfo_new_def insert_commute)
  from v have "media_tags (h' ! 0) ''completed'' = Some (VBool False)"
    and "media_tags (h' ! 0) ''rating'' = Some (VInt 0)"
    by (simp_all add: tags_default_def ex_rating_def TagInfo_new_def same_entry_def
        ex_project_def ex_store_def)
  with st old new run d' show ?thesis by blast
qed


text \<open>
  Without unique names the migration fails. \<^verbatim>\<open>add_tags\<close> with a tag that the schema
  already has leaves the name twice in \<^verbatim>\<open>tags\<close>; the keys of both records are still the
  names of the schema. \<^verbatim>\<open>update_tags([])\<close> then deletes the key twice from the first
  record: it raises \<^verbatim>\<open>KeyError\<close>, and the second record keeps the key of a tag that the
  schema no longer has.
\<close>

theorem update_tags_counterexample:
  "add_tags tags_default ex_project ex_store =
     (None, ex_project\<lparr>tags := tags_default @ tags_default\<rparr>, ex_store) \<and>
   refs (ex_project\<lparr>tags := tags_default @ tags_default\<rparr>) = [0, 1] \<and>
   dom (media_tags (ex_store ! 0)) = tag_name ` set (tags_default @ tags_default) \<and>
   dom (media_tags (ex_store ! 1)) = tag_name ` set (tags_default @ tags_default) \<and>
   (case update_tags [] (ex_project\<lparr>tags := tags_default @ tags_default\<rparr>) ex_store of
      (e, p', h') \<Rightarrow>
        e = Some (KeyError ''completed'') \<and> tags p' = [] \<and>
        media_tags (h' ! 1) ''completed'' = Some (VBool True))"
  by (simp add: add_tags_def update_tags_def refs_def ex_project_def ex_store_def
      tags_default_def TagInfo_new_def dict_of_def Let_def)

section \<open>Properties of the scan\<close>

subsection \<open>The loop over the files\<close>

lemma scan_files_append:
  "scan_files e M dt (xs @ ys) w =
     (case scan_files e M dt xs w of
        (xs', w1) \<Rightarrow> (case scan_files e M dt ys w1 of (ys', w2) \<Rightarrow> (xs' @ ys', w2)))"
proof (induction xs arbitrary: w)
  case Nil
  then show ?case by (simp split: prod.splits)
next
  case (Cons f xs)
  obtain h nm where w: "w = (h, nm)" by (cases w)
  show ?case
    by (simp add: w Cons.IH create_media_def Let_def split: option.splits prod.splits)
qed

lemma scan_files_idem:
  "scan_files e M dt fs w = (fs', w') \<Longrightarrow> scan_files e M dt fs' w = (fs', w')"
proof (induction fs arbitrary: w fs' w')
  case Nil
  then show ?case by simp
next
  case (Cons f fs)
  obtain h nm where w: "w = (h, nm)" by (cases w)
  show ?case
  proof (cases "map_of M (file_relpath f)")
    case None
    obtain fs1 w1 where r: "scan_files e M dt fs
        (h @ [(Media_from_path e (file_path f))\<lparr>media_tags := dt\<rparr>],
         AList.update (file_relpath f) (length h) nm) = (fs1, w1)"
      by (cases "scan_files e M dt fs
        (h @ [(Media_from_path e (file_path f))\<lparr>media_tags := dt\<rparr>],
         AList.update (file_relpath f) (length h) nm)")
    from Cons.prems None r have eq: "fs' = f\<lparr>file_media := Some (length h)\<rparr> # fs1" "w' = w1"
      by (simp_all add: w create_media_def Let_def)
    from Cons.IH [OF r] show ?thesis
      using None by (simp add: eq w create_media_def Let_def)
  next
    case (Some m)
    obtain fs1 w1 where r: "scan_files e M dt fs (h, nm) = (fs1, w1)"
      by (cases "scan_files e M dt fs (h, nm)")
    from Cons.prems Some r have eq: "fs' = f\<lparr>file_media := Some m\<rparr> # fs1" "w' = w1"
      by (simp_all add: w)
    from Cons.IH [OF r] show ?thesis
      using Some by (simp add: eq w)
  qed
qed

text \<open>A single induction principle for scan_files, hiding the case split.\<close>

lemma scan_files_Cons_cases:
  assumes "scan_files e M dt (f # fs) (h, nm) = (fs', h', nm')"
  obtains (old) m fs1 where "map_of M (file_relpath f) = Some m"
      "scan_files e M dt fs (h, nm) = (fs1, h', nm')" "fs' = f\<lparr>file_media := Some m\<rparr> # fs1"
  | (new) fs1 where "map_of M (file_relpath f) = None"
      "scan_files e M dt fs
         (h @ [(Media_from_path e (file_path f))\<lparr>media_tags := dt\<rparr>],
          AList.update (file_relpath f) (length h) nm) = (fs1, h', nm')"
      "fs' = f\<lparr>file_media := Some (length h)\<rparr> # fs1"
  using assms
  by (auto simp: create_media_def Let_def split: option.splits prod.splits)

lemma scan_files_store:
  "scan_files e M dt fs (h, nm) = (fs', h', nm') \<Longrightarrow> \<exists>xs. h' = h @ xs"
proof (induction fs arbitrary: h nm fs' h' nm')
  case Nil
  then show ?case by simp
next
  case (Cons f fs)
  from Cons.prems show ?case
  proof (cases rule: scan_files_Cons_cases)
    case (old m fs1)
    then show ?thesis using Cons.IH by blast
  next
    case (new fs1)
    from Cons.IH [OF new(2)] show ?thesis by auto
  qed
qed

lemma scan_files_fields:
  "scan_files e M dt fs (h, nm) = (fs', h', nm') \<Longrightarrow>
   map file_relpath fs' = map file_relpath fs \<and> map file_path fs' = map file_path fs \<and>
   map file_name fs' = map file_name fs"
proof (induction fs arbitrary: h nm fs' h' nm')
  case Nil
  then show ?case by simp
next
  case (Cons f fs)
  from Cons.prems show ?case
  proof (cases rule: scan_files_Cons_cases)
    case (old m fs1)
    with Cons.IH [OF old(2)] show ?thesis by simp
  next
    case (new fs1)
    with Cons.IH [OF new(2)] show ?thesis by simp
  qed
qed

lemma scan_files_links:
  assumes "scan_files e M dt fs (h, nm) = (fs', h', nm')" and "f' \<in> set fs'"
  shows "(\<exists>m. file_media f' = Some m \<and>
            (map_of M (file_relpath f') = Some m \<or>
             map_of M (file_relpath f') = None \<and> length h \<le> m \<and> m < length h' \<and>
             h' ! m = (Media_from_path e (file_path f'))\<lparr>media_tags := dt\<rparr>))"
  using assms
proof (induction fs arbitrary: h nm fs' h' nm')
  case Nil
  then show ?case by simp
next
  case (Cons f fs)
  from Cons.prems(1) show ?case
  proof (cases rule: scan_files_Cons_cases)
    case (old m fs1)
    show ?thesis
    proof (cases "f' \<in> set fs1")
      case True
      from Cons.IH [OF old(2) True] show ?thesis .
    next
      case False
      with Cons.prems(2) old have "f' = f\<lparr>file_media := Some m\<rparr>" by simp
      with old show ?thesis by simp
    qed
  next
    case (new fs1)
    let ?h1 = "h @ [(Media_from_path e (file_path f))\<lparr>media_tags := dt\<rparr>]"
    from scan_files_store [OF new(2)] obtain xs where h': "h' = ?h1 @ xs" by blast
    show ?thesis
    proof (cases "f' \<in> set fs1")
      case True
      from Cons.IH [OF new(2) True] show ?thesis by auto
    next
      case False
      with Cons.prems(2) new have "f' = f\<lparr>file_media := Some (length h)\<rparr>" by simp
      with new h' show ?thesis by (simp add: nth_append)
    qed
  qed
qed

lemma scan_files_created:
  assumes "scan_files e M dt fs (h, nm) = (fs', h', nm')"
    and "length h \<le> i" and "i < length h'"
  shows "\<exists>f\<in>set fs. is_new M f \<and> h' ! i = (Media_from_path e (file_path f))\<lparr>media_tags := dt\<rparr>"
  using assms
proof (induction fs arbitrary: h nm fs' h' nm')
  case Nil
  then show ?case by simp
next
  case (Cons f fs)
  from Cons.prems(1) show ?case
  proof (cases rule: scan_files_Cons_cases)
    case (old m fs1)
    from Cons.IH [OF old(2) Cons.prems(2,3)] show ?thesis by auto
  next
    case (new fs1)
    let ?h1 = "h @ [(Media_from_path e (file_path f))\<lparr>media_tags := dt\<rparr>]"
    from scan_files_store [OF new(2)] obtain xs where h': "h' = ?h1 @ xs" by blast
    show ?thesis
    proof (cases "i = length h")
      case True
      with h' new(1) show ?thesis by (simp add: nth_append is_new_def)
    next
      case False
      with Cons.prems(2) have "length ?h1 \<le> i" by simp
      from Cons.IH [OF new(2) this Cons.prems(3)] show ?thesis by auto
    qed
  qed
qed

lemma scan_files_keys:
  assumes "scan_files e M dt fs (h, nm) = (fs', h', nm')"
  shows "fst ` set nm' = fst ` set nm \<union> file_relpath ` {f \<in> set fs. is_new M f}"
  using assms
proof (induction fs arbitrary: h nm fs' h' nm')
  case Nil
  then show ?case by simp
next
  case (Cons f fs)
  from Cons.prems(1) show ?case
  proof (cases rule: scan_files_Cons_cases)
    case (old m fs1)
    from Cons.IH [OF old(2)] old(1) show ?thesis by (auto simp: is_new_def)
  next
    case (new fs1)
    from Cons.IH [OF new(2)] new(1) show ?thesis by (auto simp: is_new_def dom_update)
  qed
qed

lemma scan_files_lookup_other:
  assumes "scan_files e M dt fs (h, nm) = (fs', h', nm')"
    and "k \<notin> file_relpath ` {f \<in> set fs. is_new M f}"
  shows "map_of nm' k = map_of nm k"
  using assms
proof (induction fs arbitrary: h nm fs' h' nm')
  case Nil
  then show ?case by simp
next
  case (Cons f fs)
  from Cons.prems(1) show ?case
  proof (cases rule: scan_files_Cons_cases)
    case (old m fs1)
    from Cons.prems(2) have "k \<notin> file_relpath ` {f \<in> set fs. is_new M f}" by auto
    from Cons.IH [OF old(2) this] show ?thesis .
  next
    case (new fs1)
    from Cons.prems(2) new(1) have k: "k \<notin> file_relpath ` {f \<in> set fs. is_new M f}"
      and kf: "k \<noteq> file_relpath f" by (auto simp: is_new_def)
    from Cons.IH [OF new(2) k] kf show ?thesis by (simp add: update_conv')
  qed
qed

lemma scan_files_lookup_new:
  assumes "scan_files e M dt fs (h, nm) = (fs', h', nm')"
    and "distinct (map file_relpath (filter (is_new M) fs))"
    and "f' \<in> set fs'" and "is_new M f'"
  shows "map_of nm' (file_relpath f') = file_media f'"
  using assms
proof (induction fs arbitrary: h nm fs' h' nm')
  case Nil
  then show ?case by simp
next
  case (Cons f fs)
  from Cons.prems(1) show ?case
  proof (cases rule: scan_files_Cons_cases)
    case (old m fs1)
    then have nf: "\<not> is_new M f" by (simp add: is_new_def)
    with Cons.prems(2) have d: "distinct (map file_relpath (filter (is_new M) fs))" by simp
    have "f' \<in> set fs1"
    proof (rule ccontr)
      assume "f' \<notin> set fs1"
      with Cons.prems(3) old have "f' = f\<lparr>file_media := Some m\<rparr>" by simp
      with Cons.prems(4) nf show False by (simp add: is_new_def)
    qed
    from Cons.IH [OF old(2) d this Cons.prems(4)] show ?thesis .
  next
    case (new fs1)
    then have nf: "is_new M f" by (simp add: is_new_def)
    with Cons.prems(2) have d: "distinct (map file_relpath (filter (is_new M) fs))"
      and fresh: "file_relpath f \<notin> file_relpath ` {g \<in> set fs. is_new M g}" by auto
    show ?thesis
    proof (cases "f' \<in> set fs1")
      case True
      from Cons.IH [OF new(2) d True Cons.prems(4)] show ?thesis .
    next
      case False
      with Cons.prems(3) new have f': "f' = f\<lparr>file_media := Some (length h)\<rparr>" by simp
      from scan_files_lookup_other [OF new(2) fresh]
      show ?thesis by (simp add: f' update_conv')
    qed
  qed
qed

lemma scan_files_distinct_keys:
  assumes "scan_files e M dt fs (h, nm) = (fs', h', nm')" and "distinct (map fst nm)"
  shows "distinct (map fst nm')"
  using assms
proof (induction fs arbitrary: h nm fs' h' nm')
  case Nil
  then show ?case by simp
next
  case (Cons f fs)
  from Cons.prems(1) show ?case
  proof (cases rule: scan_files_Cons_cases)
    case (old m fs1)
    from Cons.IH [OF old(2) Cons.prems(2)] show ?thesis .
  next
    case (new fs1)
    from Cons.prems(2) have "distinct (map fst (AList.update (file_relpath f) (length h) nm))"
      by (rule distinct_update)
    from Cons.IH [OF new(2) this] show ?thesis .
  qed
qed

lemma update_snd_subset: "snd ` set (AList.update k v al) \<subseteq> insert v (snd ` set al)"
  by (induction al) auto

lemma update_snd_distinct:
  "distinct (map snd al) \<Longrightarrow> v \<notin> snd ` set al \<Longrightarrow> distinct (map snd (AList.update k v al))"
proof (induction al)
  case Nil
  then show ?case by simp
next
  case (Cons a al)
  have "snd ` set (AList.update k v al) \<subseteq> insert v (snd ` set al)" by (rule update_snd_subset)
  with Cons show ?case by (auto simp: image_iff)
qed

lemma scan_files_refs:
  assumes "scan_files e M dt fs (h, nm) = (fs', h', nm')"
    and "distinct (map snd nm)" and "\<forall>r\<in>snd ` set nm. r < length h"
  shows "distinct (map snd nm') \<and> (\<forall>r\<in>snd ` set nm'. r < length h')"
  using assms
proof (induction fs arbitrary: h nm fs' h' nm')
  case Nil
  then show ?case by simp
next
  case (Cons f fs)
  from Cons.prems(1) show ?case
  proof (cases rule: scan_files_Cons_cases)
    case (old m fs1)
    from Cons.IH [OF old(2) Cons.prems(2,3)] show ?thesis .
  next
    case (new fs1)
    let ?h1 = "h @ [(Media_from_path e (file_path f))\<lparr>media_tags := dt\<rparr>]"
    let ?nm1 = "AList.update (file_relpath f) (length h) nm"
    from Cons.prems(3) have "length h \<notin> snd ` set nm" by auto
    with Cons.prems(2) have d: "distinct (map snd ?nm1)" by (rule update_snd_distinct)
    have "snd ` set ?nm1 \<subseteq> insert (length h) (snd ` set nm)" by (rule update_snd_subset)
    with Cons.prems(3) have b: "\<forall>r\<in>snd ` set ?nm1. r < length ?h1" by fastforce
    from Cons.IH [OF new(2) d b] show ?thesis .
  qed
qed

lemma scan_files_new_refs:
  assumes "scan_files e M dt fs (h, nm) = (fs', h', nm')"
    and "\<forall>r\<in>snd ` set nm. h0 \<le> r" and "h0 \<le> length h"
  shows "\<forall>r\<in>snd ` set nm'. h0 \<le> r"
  using assms
proof (induction fs arbitrary: h nm fs' h' nm')
  case Nil
  then show ?case by simp
next
  case (Cons f fs)
  from Cons.prems(1) show ?case
  proof (cases rule: scan_files_Cons_cases)
    case (old m fs1)
    from Cons.IH [OF old(2) Cons.prems(2,3)] show ?thesis .
  next
    case (new fs1)
    let ?nm1 = "AList.update (file_relpath f) (length h) nm"
    have "snd ` set ?nm1 \<subseteq> insert (length h) (snd ` set nm)" by (rule update_snd_subset)
    with Cons.prems(2,3) have b: "\<forall>r\<in>snd ` set ?nm1. h0 \<le> r" by fastforce
    from Cons.prems(3) have "h0 \<le> length (h @ [(Media_from_path e (file_path f))\<lparr>media_tags := dt\<rparr>])"
      by simp
    from Cons.IH [OF new(2) b this] show ?thesis .
  qed
qed

lemma scan_files_empty_iff:
  assumes "scan_files e M dt fs (h, nm) = (fs', h', nm')"
  shows "nm' = [] \<longleftrightarrow> nm = [] \<and> h' = h"
  using assms
proof (induction fs arbitrary: h nm fs' h' nm')
  case Nil
  then show ?case by auto
next
  case (Cons f fs)
  from Cons.prems(1) show ?case
  proof (cases rule: scan_files_Cons_cases)
    case (old m fs1)
    from Cons.IH [OF old(2)] show ?thesis .
  next
    case (new fs1)
    let ?h1 = "h @ [(Media_from_path e (file_path f))\<lparr>media_tags := dt\<rparr>]"
    from scan_files_store [OF new(2)] obtain xs where h': "h' = ?h1 @ xs" by blast
    have "AList.update (file_relpath f) (length h) nm \<noteq> []" by (rule update_nonempty)
    with Cons.IH [OF new(2)] have "nm' \<noteq> []" by simp
    moreover from h' have "h' \<noteq> h" by simp
    ultimately show ?thesis by simp
  qed
qed

lemma scan_files_known:
  "\<forall>f\<in>set fs. \<not> is_new M f \<Longrightarrow>
   scan_files e M dt fs w = (map (\<lambda>f. f\<lparr>file_media := map_of M (file_relpath f)\<rparr>) fs, w)"
proof (induction fs arbitrary: w)
  case Nil
  then show ?case by simp
next
  case (Cons f fs)
  obtain h nm where w: "w = (h, nm)" by (cases w)
  from Cons.prems obtain m where m: "map_of M (file_relpath f) = Some m"
    by (auto simp: is_new_def)
  from Cons.prems have "\<forall>f\<in>set fs. \<not> is_new M f" by simp
  from Cons.IH [OF this] m show ?case by (simp add: w)
qed

subsection \<open>The walk\<close>

lemma walk_dirs_flat:
  assumes body: "\<And>c w d' w'. body c w = Some (d', w') \<Longrightarrow>
      scan_files e M dt (all_files d') w = (all_files d', w')"
    and run: "walk_dirs body ds w = Some (ds', w')"
  shows "scan_files e M dt (concat (map all_files ds')) w = (concat (map all_files ds'), w')"
  using run
proof (induction ds arbitrary: w ds' w')
  case Nil
  then show ?case by simp
next
  case (Cons d ds)
  from Cons.prems obtain d1 w1 ds1 where b: "body d w = Some (d1, w1)"
    and r: "walk_dirs body ds w1 = Some (ds1, w')" and ds': "ds' = d1 # ds1"
    by (auto split: option.splits prod.splits)
  from body [OF b] Cons.IH [OF r] show ?case
    by (simp add: ds' scan_files_append)
qed

lemma scan_walk_flat:
  "scan_walk n e rf M dt d w = Some (d', w') \<Longrightarrow>
   scan_files e M dt (all_files d') w = (all_files d', w')"
proof (induction n arbitrary: d w d' w')
  case 0
  then show ?case by simp
next
  case (Suc n)
  obtain fs1 w1 where f: "scan_files e M dt (dir_files d) w = (fs1, w1)"
    by (cases "scan_files e M dt (dir_files d) w")
  let ?body = "\<lambda>c. scan_walk n e rf M dt (if rf then Directory_refresh e c else c)"
  from Suc.prems f obtain ds1 where r: "walk_dirs ?body (dir_directories d) w1 = Some (ds1, w')"
    and d': "d' = Directory (dir_path d) (dir_name d) (dir_relpath d) (dir_extensions d) fs1 ds1"
    by (auto split: option.splits prod.splits)
  have "scan_files e M dt (concat (map all_files ds1)) w1 = (concat (map all_files ds1), w')"
    using r by (rule walk_dirs_flat [rotated]) (rule Suc.IH)
  moreover from f have "scan_files e M dt fs1 w = (fs1, w1)" by (rule scan_files_idem)
  ultimately show ?case by (simp add: d' scan_files_append)
qed

lemma scan_walk_fields:
  "scan_walk n e rf M dt d w = Some (d', w') \<Longrightarrow>
   dir_path d' = dir_path d \<and> dir_name d' = dir_name d \<and> dir_relpath d' = dir_relpath d \<and>
   dir_extensions d' = dir_extensions d"
  by (cases n) (auto split: option.splits prod.splits)

text \<open>Without refresh: the walk is over the files of the given tree.\<close>

lemma walk_dirs_input:
  assumes body: "\<And>c w d' w'. c \<in> set ds \<Longrightarrow> body c w = Some (d', w') \<Longrightarrow>
      scan_files e M dt (all_files c) w = (all_files d', w') \<and> height d' = height c"
    and run: "walk_dirs body ds w = Some (ds', w')"
  shows "scan_files e M dt (concat (map all_files ds)) w = (concat (map all_files ds'), w') \<and>
         map height ds' = map height ds"
  using body run
proof (induction ds arbitrary: w ds' w')
  case Nil
  then show ?case by simp
next
  case (Cons d ds)
  from Cons.prems(2) obtain d1 w1 ds1 where b: "body d w = Some (d1, w1)"
    and r: "walk_dirs body ds w1 = Some (ds1, w')" and ds': "ds' = d1 # ds1"
    by (auto split: option.splits prod.splits)
  have 1: "scan_files e M dt (all_files d) w = (all_files d1, w1) \<and> height d1 = height d"
    using b by (intro Cons.prems(1)) simp_all
  have 2: "scan_files e M dt (concat (map all_files ds)) w1 = (concat (map all_files ds1), w') \<and>
         map height ds1 = map height ds"
    using r by (intro Cons.IH Cons.prems(1)) simp_all
  from 1 2 show ?case by (simp add: ds' scan_files_append)
qed

lemma height_le_iff: "fold max xs (a::nat) \<le> n \<longleftrightarrow> a \<le> n \<and> (\<forall>x\<in>set xs. x \<le> n)"
  by (induction xs arbitrary: a) auto

lemma scan_walk_input:
  "scan_walk n e False M dt d w = Some (d', w') \<Longrightarrow>
   scan_files e M dt (all_files d) w = (all_files d', w') \<and> height d' = height d"
proof (induction n arbitrary: d w d' w')
  case 0
  then show ?case by simp
next
  case (Suc n)
  obtain p nm r x fs ds where d: "d = Directory p nm r x fs ds" by (cases d)
  obtain fs1 w1 where f: "scan_files e M dt fs w = (fs1, w1)"
    by (cases "scan_files e M dt fs w")
  let ?body = "\<lambda>c. scan_walk n e False M dt c"
  from Suc.prems f d obtain ds1 where r: "walk_dirs ?body ds w1 = Some (ds1, w')"
    and d': "d' = Directory p nm r x fs1 ds1"
    by (auto split: option.splits prod.splits)
  have "scan_files e M dt (concat (map all_files ds)) w1 = (concat (map all_files ds1), w') \<and>
         map height ds1 = map height ds"
    using r by (rule walk_dirs_input [rotated]) (rule Suc.IH)
  with f show ?case by (simp add: d d' scan_files_append)
qed

lemma walk_dirs_total:
  assumes "\<And>c w. c \<in> set ds \<Longrightarrow> \<exists>r. body c w = Some r"
  shows "\<exists>r. walk_dirs body ds w = Some r"
  using assms
proof (induction ds arbitrary: w)
  case Nil
  then show ?case by simp
next
  case (Cons d ds)
  from Cons.prems [of d w] obtain d1 w1 where b: "body d w = Some (d1, w1)" by auto
  have "\<exists>r. walk_dirs body ds w1 = Some r"
  proof (rule Cons.IH)
    fix c w assume "c \<in> set ds"
    then have "c \<in> set (d # ds)" by simp
    then show "\<exists>r. body c w = Some r" by (rule Cons.prems)
  qed
  then obtain ds1 w2 where "walk_dirs body ds w1 = Some (ds1, w2)" by auto
  with b show ?case by simp
qed

lemma scan_walk_enough:
  "height d \<le> n \<Longrightarrow> \<exists>r. scan_walk n e False M dt d w = Some r"
proof (induction n arbitrary: d w)
  case 0
  then show ?case by (cases d) simp
next
  case (Suc n)
  obtain p nm r x fs ds where d: "d = Directory p nm r x fs ds" by (cases d)
  obtain fs1 w1 where f: "scan_files e M dt fs w = (fs1, w1)"
    by (cases "scan_files e M dt fs w")
  from Suc.prems d have hs: "\<forall>c\<in>set ds. height c \<le> n" by (simp add: height_le_iff)
  have "\<exists>r. walk_dirs (\<lambda>c. scan_walk n e False M dt c) ds w1 = Some r"
    by (rule walk_dirs_total) (use hs Suc.IH in blast)
  then obtain ds1 w2 where "walk_dirs (\<lambda>c. scan_walk n e False M dt c) ds w1 = Some (ds1, w2)"
    by auto
  with f show ?case by (simp add: d)
qed

lemma walk_dirs_Some_mem:
  "walk_dirs body ds w = Some r \<Longrightarrow> c \<in> set ds \<Longrightarrow> \<exists>w0 r0. body c w0 = Some r0"
proof (induction ds arbitrary: w r)
  case Nil
  then show ?case by simp
next
  case (Cons d ds)
  then show ?case by (auto split: option.splits prod.splits)
qed

lemma scan_walk_height:
  "scan_walk n e False M dt d w = Some r \<Longrightarrow> height d \<le> n"
proof (induction n arbitrary: d w r)
  case 0
  then show ?case by simp
next
  case (Suc n)
  obtain p nm rp x fs ds where d: "d = Directory p nm rp x fs ds" by (cases d)
  obtain fs1 w1 where f: "scan_files e M dt fs w = (fs1, w1)"
    by (cases "scan_files e M dt fs w")
  from Suc.prems f d obtain r1 where r: "walk_dirs (\<lambda>c. scan_walk n e False M dt c) ds w1 = Some r1"
    by (auto split: option.splits prod.splits)
  have "height c \<le> n" if "c \<in> set ds" for c
  proof -
    from walk_dirs_Some_mem [OF r that] obtain w0 r0 where "scan_walk n e False M dt c w0 = Some r0"
      by blast
    then show ?thesis by (rule Suc.IH)
  qed
  then show ?case by (simp add: d height_le_iff)
qed

subsection \<open>The scan\<close>

lemma setup_root_eq: "setup_root e p = (p1, r1) \<Longrightarrow> p1 = p\<lparr>root := Some r1\<rparr>"
  by (auto simp: setup_root_def Let_def split: option.splits if_splits)

lemma update_fresh: "k \<notin> fst ` set d \<Longrightarrow> AList.update k v d = d @ [(k, v)]"
  by (induction d) auto

lemma dict_update_append:
  "distinct (map fst new) \<Longrightarrow> fst ` set new \<inter> fst ` set d = {} \<Longrightarrow> dict_update d new = d @ new"
proof (induction new arbitrary: d)
  case Nil
  then show ?case by (simp add: dict_update_def)
next
  case (Cons kv new)
  obtain k v where kv: "kv = (k, v)" by (cases kv)
  from Cons.prems kv have k: "k \<notin> fst ` set d" and kn: "k \<notin> fst ` set new"
    and d: "distinct (map fst new)" and dj: "fst ` set new \<inter> fst ` set d = {}"
    by auto
  from kn dj have "fst ` set new \<inter> fst ` set (d @ [(k, v)]) = {}" by auto
  from Cons.IH [OF d this] have "dict_update (d @ [(k, v)]) new = (d @ [(k, v)]) @ new" .
  then show ?case using k by (simp add: dict_update_def kv update_fresh)
qed

lemma scan_cases:
  assumes "scan fuel e rf p h = Some (p', h')"
  obtains r1 r3 nm where
    "snd (setup_root e p) = r1"
    "scan_walk fuel e rf (media p) (default_tags_of (tags p))
       (if rf then Directory_refresh e r1 else r1) (h, []) = Some (r3, h', nm)"
    "p' = (if nm = [] then p\<lparr>root := Some r3\<rparr>
           else p\<lparr>root := Some r3, media := dict_update (media p) nm,
                  number_of_files := length (dict_update (media p) nm)\<rparr>)"
proof -
  obtain p1 r1 where s: "setup_root e p = (p1, r1)" by (cases "setup_root e p")
  then have p1: "p1 = p\<lparr>root := Some r1\<rparr>" by (rule setup_root_eq)
  from assms s p1 obtain r3 h3 nm where
    w: "scan_walk fuel e rf (media p) (default_tags_of (tags p))
       (if rf then Directory_refresh e r1 else r1) (h, []) = Some (r3, h3, nm)"
    by (auto simp: scan_def scan_steps_def Let_def split: option.splits)
  from assms s p1 w have "h' = h3"
    and "p' = (if nm = [] then p\<lparr>root := Some r3\<rparr>
           else p\<lparr>root := Some r3, media := dict_update (media p) nm,
                  number_of_files := length (dict_update (media p) nm)\<rparr>)"
    by (auto simp: scan_def scan_steps_def Let_def split: if_splits)
  with s w that show thesis by auto
qed

text \<open>What the walk of a scan has done, in terms of the flat list of visited files.\<close>

lemma scan_walk_new_media:
  assumes w: "scan_walk fuel e rf M dt d (h, []) = Some (r3, h', nm)"
  shows "distinct (map fst nm)" and "fst ` set nm \<inter> fst ` set M = {}"
    and "dict_update M nm = M @ nm" and "\<exists>xs. h' = h @ xs"
    and "nm = [] \<longleftrightarrow> h' = h"
    and "distinct (map snd nm)" and "\<forall>r\<in>snd ` set nm. length h \<le> r \<and> r < length h'"
proof -
  from w have f: "scan_files e M dt (all_files r3) (h, []) = (all_files r3, h', nm)"
    by (rule scan_walk_flat)
  from scan_files_distinct_keys [OF f] show d: "distinct (map fst nm)" by simp
  from scan_files_keys [OF f] have "fst ` set nm = file_relpath ` {f \<in> set (all_files r3). is_new M f}"
    by simp
  then have "k \<notin> fst ` set M" if "k \<in> fst ` set nm" for k
    using that by (auto simp: is_new_def map_of_eq_None_iff)
  then show dj: "fst ` set nm \<inter> fst ` set M = {}" by blast
  from d dj show "dict_update M nm = M @ nm" by (rule dict_update_append)
  from f show "\<exists>xs. h' = h @ xs" by (rule scan_files_store)
  from scan_files_empty_iff [OF f] show "nm = [] \<longleftrightarrow> h' = h" by simp
  from scan_files_refs [OF f] show "distinct (map snd nm)" by simp
  from scan_files_refs [OF f] scan_files_new_refs [OF f, of "length h"]
  show "\<forall>r\<in>snd ` set nm. length h \<le> r \<and> r < length h'" by simp
qed

lemma scan_media_append:
  assumes "scan fuel e rf p h = Some (p', h')"
  shows "\<exists>nm xs. media p' = media p @ nm \<and> h' = h @ xs \<and>
     fst ` set nm \<inter> fst ` set (media p) = {} \<and> distinct (map fst nm) \<and>
     distinct (map snd nm) \<and> (\<forall>r\<in>snd ` set nm. length h \<le> r \<and> r < length h') \<and>
     (nm = [] \<longleftrightarrow> h' = h)"
  using assms
proof (cases rule: scan_cases)
  case (1 r1 r3 nm)
  note nmf = scan_walk_new_media [OF 1(2)]
  from 1(3) nmf(3) have "media p' = media p @ nm" by (cases "nm = []") simp_all
  with nmf show ?thesis by blast
qed

lemma setup_root_again:
  assumes s: "snd (setup_root e p) = r1" and d: "dir_path r3 = dir_path r1"
    and p': "path p' = path p" "extensions p' = extensions p" "root p' = Some r3"
  shows "snd (setup_root e p') = r1 \<or> snd (setup_root e p') = r3"
  using assms by (auto simp: setup_root_def Let_def split: option.splits if_splits)

lemma scan_twice:
  assumes first: "scan fuel e False p h = Some (p', h')"
  shows "\<exists>r. scan fuel e False p' h' = Some (p'\<lparr>root := Some r\<rparr>, h')"
  using first
proof (cases rule: scan_cases)
  case (1 r1 r3 nm)
  let ?dt = "default_tags_of (tags p)"
  from 1(2) have w1: "scan_walk fuel e False (media p) ?dt r1 (h, []) = Some (r3, h', nm)" by simp
  from scan_walk_input [OF w1]
  have f1: "scan_files e (media p) ?dt (all_files r1) (h, []) = (all_files r3, h', nm)"
    and ht: "height r3 = height r1" by simp_all
  from scan_walk_height [OF w1] have h1: "height r1 \<le> fuel" .
  from scan_walk_fields [OF w1] have dp: "dir_path r3 = dir_path r1" by simp
  note nmf = scan_walk_new_media [OF 1(2)]
  from 1(3) nmf(3) have m': "media p' = media p @ nm" by (cases "nm = []") simp_all
  from 1(3) have fields: "path p' = path p" "extensions p' = extensions p" "root p' = Some r3"
    "tags p' = tags p" by (simp_all split: if_splits)
  define r1' where "r1' = snd (setup_root e p')"
  from setup_root_again [OF 1(1) dp fields(1-3)] have alt: "r1' = r1 \<or> r1' = r3"
    by (simp add: r1'_def)
  have rel3: "map file_relpath (all_files r3) = map file_relpath (all_files r1)"
    using scan_files_fields [OF f1] by simp
  from alt rel3 have rel: "map file_relpath (all_files r1') = map file_relpath (all_files r1)"
    by auto
  from alt ht h1 have hr: "height r1' \<le> fuel" by auto
  have known: "\<not> is_new (media p') f" if f: "f \<in> set (all_files r1')" for f
  proof -
    from f have "file_relpath f \<in> set (map file_relpath (all_files r1'))" by simp
    with rel obtain g where g: "g \<in> set (all_files r1)" "file_relpath g = file_relpath f"
      by auto
    have "file_relpath g \<in> fst ` set (media p) \<union> fst ` set nm"
    proof (cases "is_new (media p) g")
      case True
      with g(1) scan_files_keys [OF f1] show ?thesis by auto
    next
      case False
      then show ?thesis by (auto simp: is_new_def map_of_eq_None_iff)
    qed
    then show ?thesis
      by (simp add: is_new_def map_of_eq_None_iff m' g(2) image_Un)
  qed
  from scan_walk_enough [OF hr, of e "media p'" ?dt "(h', [])"]
  obtain r3' h'' nm' where w2: "scan_walk fuel e False (media p') ?dt r1' (h', []) = Some (r3', h'', nm')"
    by (metis prod_cases3)
  from scan_walk_input [OF w2]
  have "scan_files e (media p') ?dt (all_files r1') (h', []) = (all_files r3', h'', nm')" by simp
  moreover from known
  have "scan_files e (media p') ?dt (all_files r1') (h', []) =
        (map (\<lambda>f. f\<lparr>file_media := map_of (media p') (file_relpath f)\<rparr>) (all_files r1'), h', [])"
    by (intro scan_files_known) simp
  ultimately have same: "h'' = h'" "nm' = []" by simp_all
  obtain q1 where sr: "setup_root e p' = (q1, r1')"
    by (cases "setup_root e p'") (simp add: r1'_def)
  then have q1: "q1 = p'\<lparr>root := Some r1'\<rparr>" by (rule setup_root_eq)
  have "scan fuel e False p' h' = Some (p'\<lparr>root := Some r3'\<rparr>, h')"
    using w2 same sr q1 fields(4)
    by (simp add: scan_def scan_steps_def Let_def)
  then show ?thesis by blast
qed

lemma scan_returns:
  assumes "height (snd (setup_root e p)) \<le> fuel"
  shows "\<exists>r. scan fuel e False p h = Some r"
proof -
  obtain p1 r1 where s: "setup_root e p = (p1, r1)" by (cases "setup_root e p")
  with assms have "height r1 \<le> fuel" by simp
  from scan_walk_enough [OF this, of e "media p" "default_tags_of (tags p1)" "(h, [])"]
  obtain r where "scan_walk fuel e False (media p) (default_tags_of (tags p1)) r1 (h, []) = Some r"
    by blast
  with s show ?thesis
    by (cases r) (simp add: scan_def scan_steps_def Let_def)
qed

lemma default_tags_of_dom: "dom (default_tags_of ts) = tag_name ` set ts"
proof -
  have "k \<in> dom (default_tags_of ts) \<longleftrightarrow> k \<in> tag_name ` set ts" for k
    using dict_of_None [of "map (\<lambda>ti. (tag_name ti, tag_default ti)) ts" k]
    by (auto simp: default_tags_of_def image_iff)
  then show ?thesis by blast
qed

lemma default_tags_of_value:
  assumes "schema_ok ts" and "t \<in> set ts"
  shows "default_tags_of ts (tag_name t) = Some (tag_default t)"
proof -
  have "distinct (map fst (map (\<lambda>ti. (tag_name ti, tag_default ti)) ts))"
    using assms(1) by (simp add: schema_ok_def comp_def)
  moreover have "(tag_name t, tag_default t) \<in> set (map (\<lambda>ti. (tag_name ti, tag_default ti)) ts)"
    using assms(2) by simp
  ultimately show ?thesis unfolding default_tags_of_def by (rule dict_of_distinct)
qed

lemma scan_steps_cases:
  assumes "scan_steps fuel e rf p h = Some ss"
  obtains r1 r2 r3 h' nm where
    "snd (setup_root e p) = r1" "r2 = (if rf then Directory_refresh e r1 else r1)"
    "scan_walk fuel e rf (media p) (default_tags_of (tags p)) r2 (h, []) = Some (r3, h', nm)"
    "ss = [(p, h), (p\<lparr>root := Some r1\<rparr>, h), (p\<lparr>root := Some r2\<rparr>, h), (p\<lparr>root := Some r3\<rparr>, h')] @
          (if nm = [] then []
           else [(p\<lparr>root := Some r3, media := dict_update (media p) nm\<rparr>, h'),
                 (p\<lparr>root := Some r3, media := dict_update (media p) nm,
                    number_of_files := length (dict_update (media p) nm)\<rparr>, h')])"
proof -
  obtain p1 r1 where s: "setup_root e p = (p1, r1)" by (cases "setup_root e p")
  then have p1: "p1 = p\<lparr>root := Some r1\<rparr>" by (rule setup_root_eq)
  define r2 where "r2 = (if rf then Directory_refresh e r1 else r1)"
  from assms s p1 obtain r3 h3 nm where
    w: "scan_walk fuel e rf (media p) (default_tags_of (tags p)) r2 (h, []) = Some (r3, h3, nm)"
    by (auto simp: scan_steps_def Let_def r2_def split: option.splits)
  from assms s p1 w have
    "ss = [(p, h), (p\<lparr>root := Some r1\<rparr>, h), (p\<lparr>root := Some r2\<rparr>, h), (p\<lparr>root := Some r3\<rparr>, h3)] @
          (if nm = [] then []
           else [(p\<lparr>root := Some r3, media := dict_update (media p) nm\<rparr>, h3),
                 (p\<lparr>root := Some r3, media := dict_update (media p) nm,
                    number_of_files := length (dict_update (media p) nm)\<rparr>, h3)])"
    by (auto simp: scan_steps_def Let_def r2_def)
  with s w r2_def that show thesis by auto
qed

text \<open>The scan of the concrete project.\<close>

lemmas ex_scan_defs = scan_def scan_steps_def setup_root_def ex_env_def ex_tree_def
  ex_project_def ex_store_def tags_default_def TagInfo_new_def Let_def create_media_def
  default_tags_of_def dict_of_def dict_update_def ex_tree_linked_def ex_project_scanned_def
  ex_store_scanned_def

lemma ex_scan:
  "scan (Suc (Suc 0)) ex_env False ex_project ex_store = Some (ex_project_scanned, ex_store_scanned)"
  by (simp add: ex_scan_defs)

lemma ex_scan_steps:
  "\<exists>ss. scan_steps (Suc (Suc 0)) ex_env False ex_project ex_store = Some ss \<and>
     snd (last ss) = ex_store_scanned"
  using ex_scan by (auto simp: scan_def)

subsection \<open>The claims about the scan\<close>

text \<open>
  C2. When \<^verbatim>\<open>scan\<close> returns, every key of \<^verbatim>\<open>media\<close> is still a key and refers to the same
  object as before, no object that existed before has changed, and \<^verbatim>\<open>media\<close> is the old
  dictionary followed by new entries. A second \<^verbatim>\<open>scan()\<close> (without refresh) in the same
  environment returns with the same store and with a project that differs from the first
  result at most in the links of its root: no key is added and no record is made.
\<close>

theorem scan_keeps_media:
  assumes run: "scan fuel e rf p h = Some (p', h')"
  shows "(\<forall>k r. map_of (media p) k = Some r \<longrightarrow> map_of (media p') k = Some r) \<and>
         (\<forall>r<length h. h' ! r = h ! r) \<and>
         (\<exists>new. media p' = media p @ new) \<and>
         (\<not> rf \<longrightarrow> (\<exists>r'. scan fuel e False p' h' = Some (p'\<lparr>root := Some r'\<rparr>, h')))"
proof -
  from scan_media_append [OF run] obtain nm xs where
    m: "media p' = media p @ nm" and s: "h' = h @ xs" by blast
  have 1: "\<forall>k r. map_of (media p) k = Some r \<longrightarrow> map_of (media p') k = Some r"
    by (simp add: m map_add_Some_iff)
  have 2: "\<forall>r<length h. h' ! r = h ! r" by (simp add: s nth_append)
  have 3: "\<not> rf \<longrightarrow> (\<exists>r'. scan fuel e False p' h' = Some (p'\<lparr>root := Some r'\<rparr>, h'))"
    using run scan_twice by auto
  from 1 2 3 m show ?thesis by blast
qed


theorem scan_keeps_media_witness:
  "scan (Suc (Suc 0)) ex_env False ex_project ex_store = Some (ex_project_scanned, ex_store_scanned) \<and>
   map_of (media ex_project) ''b.txt'' = Some 1 \<and>
   map_of (media ex_project_scanned) ''b.txt'' = Some 1 \<and>
   ex_store_scanned ! 1 = ex_store ! 1 \<and>
   (\<exists>r'. scan (Suc (Suc 0)) ex_env False ex_project_scanned ex_store_scanned =
           Some (ex_project_scanned\<lparr>root := Some r'\<rparr>, ex_store_scanned))"
proof -
  have b: "map_of (media ex_project) ''b.txt'' = Some 1" by (simp add: ex_project_def)
  have l: "1 < length ex_store" by (simp add: ex_store_def)
  from scan_keeps_media [OF ex_scan] b l show ?thesis using ex_scan by blast
qed


text \<open>
  C3. When \<^verbatim>\<open>scan\<close> returns, the project has a root, and every file reachable from it is
  linked to a record. Where the relative paths of the reachable files are distinct, the
  link of a file is the entry of \<^verbatim>\<open>media\<close> under its relative path. For a file whose
  relative path was not a key of \<^verbatim>\<open>media\<close> before, the record is a new object of the store,
  made by \<^verbatim>\<open>Media.from_path\<close> from the path of the file, with \<^verbatim>\<open>default_tags\<close> as its tag
  mapping. The keys of \<^verbatim>\<open>default_tags\<close> are the names of the schema, and with unique names
  each name is mapped to the default of its entry.
\<close>

theorem scan_links_files:
  assumes run: "scan fuel e rf p h = Some (p', h')"
  shows "\<exists>r'. root p' = Some r' \<and>
     (\<forall>f\<in>set (all_files r').
        (\<exists>m. file_media f = Some m) \<and>
        (distinct (map file_relpath (all_files r')) \<longrightarrow>
           file_media f = map_of (media p') (file_relpath f)) \<and>
        (is_new (media p) f \<longrightarrow>
           (\<exists>m. file_media f = Some m \<and> length h \<le> m \<and> m < length h' \<and>
                h' ! m = (Media_from_path e (file_path f))\<lparr>media_tags := default_tags_of (tags p)\<rparr>))) \<and>
     dom (default_tags_of (tags p)) = tag_name ` set (tags p) \<and>
     (schema_ok (tags p) \<longrightarrow>
        (\<forall>t\<in>set (tags p). default_tags_of (tags p) (tag_name t) = Some (tag_default t)))"
  using run
proof (cases rule: scan_cases)
  case (1 r1 r3 nm)
  let ?dt = "default_tags_of (tags p)"
  from 1(2) have f: "scan_files e (media p) ?dt (all_files r3) (h, []) = (all_files r3, h', nm)"
    by (rule scan_walk_flat)
  note nmf = scan_walk_new_media [OF 1(2)]
  from 1(3) nmf(3) have m': "media p' = media p @ nm" by (cases "nm = []") simp_all
  from 1(3) have r': "root p' = Some r3" by (simp split: if_splits)
  have per_file: "(\<exists>m. file_media g = Some m) \<and>
        (distinct (map file_relpath (all_files r3)) \<longrightarrow>
           file_media g = map_of (media p') (file_relpath g)) \<and>
        (is_new (media p) g \<longrightarrow>
           (\<exists>m. file_media g = Some m \<and> length h \<le> m \<and> m < length h' \<and>
                h' ! m = (Media_from_path e (file_path g))\<lparr>media_tags := ?dt\<rparr>))"
    if g: "g \<in> set (all_files r3)" for g
  proof -
    from scan_files_links [OF f g] obtain m where m: "file_media g = Some m"
      and alt: "map_of (media p) (file_relpath g) = Some m \<or>
             map_of (media p) (file_relpath g) = None \<and> length h \<le> m \<and> m < length h' \<and>
             h' ! m = (Media_from_path e (file_path g))\<lparr>media_tags := ?dt\<rparr>"
      by blast
    have link: "file_media g = map_of (media p') (file_relpath g)"
      if d: "distinct (map file_relpath (all_files r3))"
    proof (cases "is_new (media p) g")
      case True
      from d have "distinct (map file_relpath (filter (is_new (media p)) (all_files r3)))"
        by (rule distinct_map_filter)
      from scan_files_lookup_new [OF f this g True]
      have "map_of nm (file_relpath g) = file_media g" .
      with m True show ?thesis by (simp add: m' map_add_def is_new_def)
    next
      case False
      with alt have old: "map_of (media p) (file_relpath g) = Some m" by (auto simp: is_new_def)
      have "file_relpath g \<notin> fst ` set nm"
      proof
        assume "file_relpath g \<in> fst ` set nm"
        moreover from old have "file_relpath g \<in> fst ` set (media p)"
          by (metis map_of_eq_None_iff option.distinct(1))
        ultimately show False using nmf(2) by blast
      qed
      then have "map_of nm (file_relpath g) = None" by (simp add: map_of_eq_None_iff)
      with old m show ?thesis by (simp add: m' map_add_def)
    qed
    from m alt link show ?thesis by (auto simp: is_new_def)
  qed
  have "dom ?dt = tag_name ` set (tags p)" by (rule default_tags_of_dom)
  moreover have "schema_ok (tags p) \<longrightarrow>
        (\<forall>t\<in>set (tags p). ?dt (tag_name t) = Some (tag_default t))"
    by (simp add: default_tags_of_value)
  ultimately show ?thesis using r' per_file by blast
qed


theorem scan_links_files_witness:
  "scan (Suc (Suc 0)) ex_env False ex_project ex_store = Some (ex_project_scanned, ex_store_scanned) \<and>
   schema_ok (tags ex_project) \<and>
   (\<exists>r'. root ex_project_scanned = Some r' \<and>
      distinct (map file_relpath (all_files r')) \<and>
      list_all (\<lambda>f. file_media f = map_of (media ex_project_scanned) (file_relpath f))
        (all_files r') \<and>
      list_all (\<lambda>f. is_new (media ex_project) f \<longrightarrow>
          (\<exists>m. file_media f = Some m \<and> ex_store_scanned ! m =
             (Media_from_path ex_env (file_path f))\<lparr>media_tags := default_tags_of (tags ex_project)\<rparr>))
        (all_files r')) \<and>
   default_tags_of (tags ex_project) ''completed'' = Some (VBool False)"
proof -
  from scan_links_files [OF ex_scan] obtain r' where r': "root ex_project_scanned = Some r'"
    and files: "\<forall>f\<in>set (all_files r').
        (\<exists>m. file_media f = Some m) \<and>
        (distinct (map file_relpath (all_files r')) \<longrightarrow>
           file_media f = map_of (media ex_project_scanned) (file_relpath f)) \<and>
        (is_new (media ex_project) f \<longrightarrow>
           (\<exists>m. file_media f = Some m \<and> length ex_store \<le> m \<and> m < length ex_store_scanned \<and>
                ex_store_scanned ! m =
                (Media_from_path ex_env (file_path f))\<lparr>media_tags := default_tags_of (tags ex_project)\<rparr>))"
    and dflt: "schema_ok (tags ex_project) \<longrightarrow>
        (\<forall>t\<in>set (tags ex_project). default_tags_of (tags ex_project) (tag_name t) = Some (tag_default t))"
    by blast
  have so: "schema_ok (tags ex_project)"
    by (simp add: schema_ok_def ex_project_def tags_default_def)
  from r' have "r' = ex_tree_linked" by (simp add: ex_project_scanned_def)
  then have d: "distinct (map file_relpath (all_files r'))" by (simp add: ex_tree_linked_def)
  from files d have 1: "list_all (\<lambda>f. file_media f = map_of (media ex_project_scanned) (file_relpath f))
        (all_files r')" by (simp add: list_all_iff)
  from files have 2: "list_all (\<lambda>f. is_new (media ex_project) f \<longrightarrow>
          (\<exists>m. file_media f = Some m \<and> ex_store_scanned ! m =
             (Media_from_path ex_env (file_path f))\<lparr>media_tags := default_tags_of (tags ex_project)\<rparr>))
        (all_files r')" unfolding list_all_iff by blast
  from dflt so have "default_tags_of (tags ex_project) ''completed'' = Some (VBool False)"
    by (simp add: ex_project_def tags_default_def TagInfo_new_def)
  with ex_scan so r' d 1 2 show ?thesis by blast
qed


text \<open>
  C4. The values of \<^verbatim>\<open>media\<close> in the successive states of a scan: the old dictionary in
  the first four states (up to the end of the walk); then, if and only if the walk has
  made a record, the old dictionary followed by the new entries, assigned once. The new
  entries have keys that the old dictionary does not have, and refer to the records made
  by the walk.
\<close>

theorem scan_media_assigned_once:
  assumes "scan_steps fuel e rf p h = Some ss"
  shows "\<exists>new h'. snd (last ss) = h' \<and>
     map (\<lambda>s. media (fst s)) ss =
       replicate 4 (media p) @ (if new = [] then [] else replicate 2 (media p @ new)) \<and>
     (new = [] \<longleftrightarrow> h' = h) \<and>
     fst ` set new \<inter> fst ` set (media p) = {} \<and>
     snd ` set new \<subseteq> {length h..<length h'}"
  using assms
proof (cases rule: scan_steps_cases)
  case (1 r1 r2 r3 h' nm)
  from 1(2,3) have w: "scan_walk fuel e rf (media p) (default_tags_of (tags p))
      (if rf then Directory_refresh e r1 else r1) (h, []) = Some (r3, h', nm)" by simp
  note nmf = scan_walk_new_media [OF w]
  have "snd (last ss) = h'" by (simp add: 1(4))
  moreover have "map (\<lambda>s. media (fst s)) ss =
       replicate 4 (media p) @ (if nm = [] then [] else replicate 2 (media p @ nm))"
    by (simp add: 1(4) nmf(3) numeral_eq_Suc)
  moreover from nmf(7) have "snd ` set nm \<subseteq> {length h..<length h'}" by auto
  ultimately show ?thesis using nmf(2,5) by blast
qed


theorem scan_media_assigned_once_witness:
  "\<exists>ss new. scan_steps (Suc (Suc 0)) ex_env False ex_project ex_store = Some ss \<and>
     snd (last ss) = ex_store_scanned \<and> new \<noteq> [] \<and>
     map (\<lambda>s. media (fst s)) ss =
       replicate 4 (media ex_project) @ replicate 2 (media ex_project @ new)"
proof -
  from ex_scan_steps obtain ss where
    ss: "scan_steps (Suc (Suc 0)) ex_env False ex_project ex_store = Some ss"
    and l: "snd (last ss) = ex_store_scanned" by blast
  from scan_media_assigned_once [OF ss] l obtain new where
    m: "map (\<lambda>s. media (fst s)) ss =
       replicate 4 (media ex_project) @ (if new = [] then [] else replicate 2 (media ex_project @ new))"
    and n: "new = [] \<longleftrightarrow> ex_store_scanned = ex_store" by auto
  have "ex_store_scanned \<noteq> ex_store" by (simp add: ex_store_scanned_def)
  with n have "new \<noteq> []" by simp
  with m ss l show ?thesis by auto
qed


text \<open>
  C10. The schema of a new project is the single entry \<^verbatim>\<open>completed\<close> of type bool with
  the default \<^verbatim>\<open>False\<close>; the default of an entry made without one is \<^verbatim>\<open>""\<close>, \<^verbatim>\<open>0\<close>,
  \<^verbatim>\<open>0.0\<close> or \<^verbatim>\<open>False\<close>, by its type. A scan of a project with this schema gives every
  record that it makes the tag mapping \<^verbatim>\<open>{'completed': False}\<close>; when \<^verbatim>\<open>media\<close> was empty,
  every record of \<^verbatim>\<open>media\<close> is such a record.
\<close>

theorem default_schema_seeds_records:
  "tags Project_new = [\<lparr>tag_name = ''completed'', tag_type = Bool_t, tag_default = VBool False\<rparr>] \<and>
   (\<forall>n t. tag_default (TagInfo_new n t) =
      (case t of String_t \<Rightarrow> VStr [] | Int_t \<Rightarrow> VInt 0 | Float_t \<Rightarrow> VFloat 0 | Bool_t \<Rightarrow> VBool False)) \<and>
   (\<forall>fuel e rf p h p' h'.
      tags p = tags Project_new \<longrightarrow> scan fuel e rf p h = Some (p', h') \<longrightarrow>
      (\<forall>i. length h \<le> i \<and> i < length h' \<longrightarrow>
           media_tags (h' ! i) = [''completed'' \<mapsto> VBool False]) \<and>
      (media p = [] \<longrightarrow> (\<forall>r\<in>set (refs p'). length h \<le> r \<and> r < length h')))"
proof -
  have 1: "tags Project_new = [\<lparr>tag_name = ''completed'', tag_type = Bool_t, tag_default = VBool False\<rparr>]"
    by (simp add: Project_new_def tags_default_def TagInfo_new_def)
  have 2: "tag_default (TagInfo_new n t) =
      (case t of String_t \<Rightarrow> VStr [] | Int_t \<Rightarrow> VInt 0 | Float_t \<Rightarrow> VFloat 0 | Bool_t \<Rightarrow> VBool False)"
    for n t by (cases t) (simp_all add: TagInfo_new_def)
  have 3: "(\<forall>i. length h \<le> i \<and> i < length h' \<longrightarrow>
           media_tags (h' ! i) = [''completed'' \<mapsto> VBool False]) \<and>
      (media p = [] \<longrightarrow> (\<forall>r\<in>set (refs p'). length h \<le> r \<and> r < length h'))"
    if t: "tags p = tags Project_new" and run: "scan fuel e rf p h = Some (p', h')"
    for fuel e rf p h p' h'
    using run
  proof (cases rule: scan_cases)
    case (1 r1 r3 nm)
    let ?dt = "default_tags_of (tags p)"
    have dt: "?dt = [''completed'' \<mapsto> VBool False]"
      by (simp add: t default_tags_of_def dict_of_def Project_new_def tags_default_def
          TagInfo_new_def)
    from 1(2) have f: "scan_files e (media p) ?dt (all_files r3) (h, []) = (all_files r3, h', nm)"
      by (rule scan_walk_flat)
    have a: "media_tags (h' ! i) = [''completed'' \<mapsto> VBool False]"
      if "length h \<le> i" "i < length h'" for i
      using scan_files_created [OF f that] by (auto simp: dt)
    note nmf = scan_walk_new_media [OF 1(2)]
    from 1(3) nmf(3) have m': "media p' = media p @ nm" by (cases "nm = []") simp_all
    have b: "media p = [] \<longrightarrow> (\<forall>r\<in>set (refs p'). length h \<le> r \<and> r < length h')"
      using nmf(7) by (simp add: refs_def m')
    from a b show ?thesis by blast
  qed
  from 1 2 3 show ?thesis by blast
qed

theorem default_schema_seeds_records_witness:
  "tags ex_project = tags Project_new \<and>
   scan (Suc (Suc 0)) ex_env False ex_project ex_store = Some (ex_project_scanned, ex_store_scanned) \<and>
   length ex_store = 2 \<and> length ex_store_scanned = 4 \<and>
   media_tags (ex_store_scanned ! 2) = [''completed'' \<mapsto> VBool False] \<and>
   media_tags (ex_store_scanned ! 3) = [''completed'' \<mapsto> VBool False]"
proof -
  have t: "tags ex_project = tags Project_new" by (simp add: ex_project_def Project_new_def)
  have l: "length ex_store = 2" "length ex_store_scanned = 4"
    by (simp_all add: ex_store_def ex_store_scanned_def)
  from default_schema_seeds_records t ex_scan
  have "\<forall>i. length ex_store \<le> i \<and> i < length ex_store_scanned \<longrightarrow>
           media_tags (ex_store_scanned ! i) = [''completed'' \<mapsto> VBool False]"
    by blast
  with l have "media_tags (ex_store_scanned ! 2) = [''completed'' \<mapsto> VBool False]"
    and "media_tags (ex_store_scanned ! 3) = [''completed'' \<mapsto> VBool False]"
    by simp_all
  with t l ex_scan show ?thesis by blast
qed

section \<open>Properties of load and save\<close>

lemma save_as_cases:
  "save_as e fp p h fs =
     (case root p of
        None \<Rightarrow> (Some AttributeError, fs(fp \<mapsto> \<lparr>content = Not_json, ctime = clock e\<rparr>))
      | Some r \<Rightarrow> (None, fs(fp \<mapsto> \<lparr>content = Json (document_of p h r), ctime = clock e\<rparr>)))"
  by (simp add: save_as_def Let_def split: option.splits)

lemma save_as_written:
  "save_as e fp p h fs = (None, fs') \<Longrightarrow>
   \<exists>r. root p = Some r \<and> fs' = fs(fp \<mapsto> \<lparr>content = Json (document_of p h r), ctime = clock e\<rparr>)"
  by (auto simp: save_as_cases split: option.splits)

lemma set_name_fields:
  "set_name nm p fs = (p1, fs1) \<Longrightarrow> p1 = p\<lparr>name := nm, save_file := save_file p1\<rparr>"
  by (auto simp: set_name_def name_changed_def Let_def split: if_splits)

lemma load_media_store: "load_media ms d h = (d', h') \<Longrightarrow> \<exists>xs. h' = h @ xs"
proof (induction ms arbitrary: d h)
  case Nil
  then show ?case by simp
next
  case (Cons a ms)
  obtain k kw where a: "a = (k, kw)" by (cases a)
  from Cons.prems have "load_media ms (AList.update k (length h) d) (h @ [Media_from_dict kw]) = (d', h')"
    by (simp add: a)
  from Cons.IH [OF this] show ?case by auto
qed

lemma load_fields_failure:
  assumes "load_fields e data p h fs = (Some err, p', h', fs')"
  shows "\<exists>sf. (fs' = fs \<or> fs' = move fs (save_file p) sf) \<and>
     (doc_path data = None \<and> err = TraitError \<and> h' = h \<and>
        p' = p\<lparr>name := (case doc_name data of None \<Rightarrow> [] | Some n \<Rightarrow> n), save_file := sf,
               description := (case doc_description data of None \<Rightarrow> [] | Some d \<Rightarrow> d)\<rparr>
      \<or> (\<exists>path'. doc_path data = Some path' \<and>
            (doc_tags data = None \<and> err = KeyError ''tags'' \<or>
             (\<exists>ts. doc_tags data = Some ts \<and> load_tags ts = None \<and> err = TraitError)) \<and>
            h' = h \<and>
            p' = p\<lparr>name := (case doc_name data of None \<Rightarrow> [] | Some n \<Rightarrow> n), save_file := sf,
               description := (case doc_description data of None \<Rightarrow> [] | Some d \<Rightarrow> d),
               path := path'\<rparr>)
      \<or> (\<exists>path' ts tags'. doc_path data = Some path' \<and> doc_tags data = Some ts \<and>
            load_tags ts = Some tags' \<and> doc_media data = None \<and> err = KeyError ''media'' \<and>
            h' = h \<and>
            p' = p\<lparr>name := (case doc_name data of None \<Rightarrow> [] | Some n \<Rightarrow> n), save_file := sf,
               description := (case doc_description data of None \<Rightarrow> [] | Some d \<Rightarrow> d),
               path := path', tags := tags',
               processors := (case doc_processors data of None \<Rightarrow> [] | Some ps \<Rightarrow> ps)\<rparr>)
      \<or> (\<exists>path' ts tags' ms media'. doc_path data = Some path' \<and> doc_tags data = Some ts \<and>
            load_tags ts = Some tags' \<and> doc_media data = Some ms \<and> doc_root data = None \<and>
            err = TypeError \<and> load_media ms [] h = (media', h') \<and>
            p' = p\<lparr>name := (case doc_name data of None \<Rightarrow> [] | Some n \<Rightarrow> n), save_file := sf,
               description := (case doc_description data of None \<Rightarrow> [] | Some d \<Rightarrow> d),
               path := path', tags := tags',
               processors := (case doc_processors data of None \<Rightarrow> [] | Some ps \<Rightarrow> ps),
               media := media'\<rparr>))"
proof -
  obtain p1 fs1 where sn: "set_name (case doc_name data of None \<Rightarrow> [] | Some n \<Rightarrow> n) p fs = (p1, fs1)"
    by (cases "set_name (case doc_name data of None \<Rightarrow> [] | Some n \<Rightarrow> n) p fs")
  from set_name_fields [OF sn] have p1: "p1 = p\<lparr>name := (case doc_name data of None \<Rightarrow> [] | Some n \<Rightarrow> n),
      save_file := save_file p1\<rparr>" .
  from sn have fs1: "fs1 = fs \<or> fs1 = move fs (save_file p) (save_file p1)"
    by (auto simp: set_name_def name_changed_def Let_def split: if_splits)
  show ?thesis
    apply (rule exI [of _ "save_file p1"])
    using assms sn fs1
    apply (simp add: load_fields_def Let_def split: option.splits prod.splits)
    using p1 apply auto
    done
qed

lemma load_cases:
  assumes run: "load fuel e fp p h fs = Some (err, p', h', fs')"
  obtains (noop) "fp = None" "\<not> exists_file fs (save_file p)" "err = None" "p' = p" "h' = h" "fs' = fs"
  | (missing) "err = Some IOError" "p' = p" "h' = h" "fs' = fs"
  | (unparsed) "err = Some ValueError" "p' = p" "h' = h" "fs' = fs"
  | (parsed) data where "source_document fs fp p = Some data"
      "load_data fuel e data p h fs = Some (err, p', h', fs')"
proof (cases "fp = None \<and> \<not> exists_file fs (save_file p)")
  case True
  with run have "err = None" "p' = p" "h' = h" "fs' = fs" by (simp_all add: load_def)
  with True show ?thesis using noop by blast
next
  case False
  define src where "src = (case fp of None \<Rightarrow> save_file p | Some f \<Rightarrow> f)"
  show ?thesis
  proof (cases "fs src")
    case None
    with run False have "err = Some IOError" "p' = p" "h' = h" "fs' = fs"
      by (simp_all add: load_def src_def)
    then show ?thesis using missing by blast
  next
    case (Some f)
    show ?thesis
    proof (cases "content f")
      case (Json data)
      with run False Some have "load_data fuel e data p h fs = Some (err, p', h', fs')"
        by (simp add: load_def src_def)
      moreover from Some Json have "source_document fs fp p = Some data"
        by (simp add: source_document_def src_def)
      ultimately show ?thesis using parsed by blast
    next
      case Not_json
      with run False Some have "err = Some ValueError" "p' = p" "h' = h" "fs' = fs"
        by (simp_all add: load_def src_def)
      then show ?thesis using unparsed by blast
    qed
  qed
qed

lemma parse_type_name: "parse_type (type_name t) = Some t"
  by (cases t) (simp_all add: parse_type_def)

lemma load_tags_saved:
  "load_tags (map (\<lambda>t. (tag_name t, type_name (tag_type t))) ts) =
     Some (map (\<lambda>t. TagInfo_new (tag_name t) (tag_type t)) ts)"
  by (induction ts) (simp_all add: parse_type_name)

lemma load_media_fresh:
  assumes "distinct (map fst ms)" and "fst ` set ms \<inter> fst ` set d = {}"
  shows "load_media ms d h =
     (d @ zip (map fst ms) [length h..<length h + length ms], h @ map (\<lambda>kv. Media_from_dict (snd kv)) ms)"
  using assms
proof (induction ms arbitrary: d h)
  case Nil
  then show ?case by simp
next
  case (Cons a ms)
  obtain k kw where a: "a = (k, kw)" by (cases a)
  from Cons.prems a have k: "k \<notin> fst ` set d" and kn: "k \<notin> fst ` set ms"
    and dm: "distinct (map fst ms)" and dj: "fst ` set ms \<inter> fst ` set d = {}"
    by auto
  have up: "AList.update k (length h) d = d @ [(k, length h)]" using k by (rule update_fresh)
  from kn dj have dj': "fst ` set ms \<inter> fst ` set (d @ [(k, length h)]) = {}" by auto
  have "[length h..<length h + length (a # ms)] = length h # [Suc (length h)..<Suc (length h) + length ms]"
    by (subst upt_conv_Cons) simp_all
  then show ?case
    using Cons.IH [OF dm dj', of "h @ [Media_from_dict kw]"] by (simp add: a up)
qed

lemma all_files_getstate:
  "all_files (Directory_getstate r) = map (\<lambda>f. f\<lparr>file_media := None\<rparr>) (all_files r)"
proof (induction r)
  case (Directory p n rp x fs ds)
  have "concat (map all_files (map Directory_getstate ds)) =
        concat (map (\<lambda>d. map (\<lambda>f. f\<lparr>file_media := None\<rparr>) (all_files d)) ds)"
    using Directory.IH by (induction ds) simp_all
  then show ?case by (simp add: map_concat comp_def)
qed

lemma scan_frame:
  assumes "scan fuel e rf p h = Some (p', h')"
  shows "name p' = name p" "description p' = description p" "path p' = path p"
    "tags p' = tags p" "extensions p' = extensions p" "processors p' = processors p"
    "save_file p' = save_file p" "last_save_time p' = last_save_time p"
  using assms by (cases rule: scan_cases; simp split: if_splits)+

lemma scan_new_keys:
  assumes "scan fuel e rf p h = Some (p', h')"
  shows "\<exists>nm r' xs. root p' = Some r' \<and> media p' = media p @ nm \<and> h' = h @ xs \<and>
     fst ` set nm = file_relpath ` {f \<in> set (all_files r'). is_new (media p) f} \<and>
     (\<forall>r\<in>snd ` set nm. length h \<le> r \<and> r < length h' \<and>
        media_tags (h' ! r) = default_tags_of (tags p))"
  using assms
proof (cases rule: scan_cases)
  case (1 r1 r3 nm)
  let ?dt = "default_tags_of (tags p)"
  from 1(2) have f: "scan_files e (media p) ?dt (all_files r3) (h, []) = (all_files r3, h', nm)"
    by (rule scan_walk_flat)
  note nmf = scan_walk_new_media [OF 1(2)]
  from 1(3) nmf(3) have m': "media p' = media p @ nm" by (cases "nm = []") simp_all
  from 1(3) have r': "root p' = Some r3" by (simp split: if_splits)
  from scan_files_keys [OF f]
  have k: "fst ` set nm = file_relpath ` {f \<in> set (all_files r3). is_new (media p) f}" by simp
  have c: "length h \<le> r \<and> r < length h' \<and> media_tags (h' ! r) = ?dt" if "r \<in> snd ` set nm" for r
  proof -
    from nmf(7) that have b: "length h \<le> r" "r < length h'" by auto
    from scan_files_created [OF f b] have "media_tags (h' ! r) = ?dt" by auto
    with b show ?thesis by simp
  qed
  from r' m' nmf(4) k c show ?thesis by blast
qed

lemma load_fields_complete:
  assumes "doc_name data = Some nm" "doc_description data = Some ds" "doc_path data = Some pt"
    "doc_tags data = Some ts" "load_tags ts = Some tags'" "doc_processors data = Some ps"
    "doc_media data = Some ms" "load_media ms [] h = (media', h1)" "doc_root data = Some st"
    "set_name nm p fs = (p1, fs1)"
  shows "load_fields e data p h fs =
     (None,
      (set_extensions e (dir_extensions (Directory_setstate st))
         (p1\<lparr>description := ds, path := pt, tags := tags', processors := ps, media := media'\<rparr>))
        \<lparr>root := Some (Directory_setstate st), number_of_files := length media'\<rparr>,
      h1, fs1)"
proof -
  have "media (set_extensions e x (p1\<lparr>description := ds, path := pt, tags := tags',
      processors := ps, media := media'\<rparr>)) = media'" for x
    by (simp add: set_extensions_def Let_def split: option.splits)
  then show ?thesis
    using assms by (simp add: load_fields_def Let_def)
qed

lemma view_zip:
  assumes h': "h' = (h0 @ map (\<lambda>kv. Media_from_dict (snd kv)) (map (\<lambda>(k, r). (k, Media_to_dict (h ! r))) M)) @ xs"
  shows "map (\<lambda>(k, r). (k, media_tags (h' ! r)))
           (zip (map fst M) [length h0..<length h0 + length M]) =
         map (\<lambda>(k, r). (k, media_tags (h ! r))) M"
proof (rule nth_equalityI)
  show "length (map (\<lambda>(k, r). (k, media_tags (h' ! r)))
           (zip (map fst M) [length h0..<length h0 + length M])) =
        length (map (\<lambda>(k, r). (k, media_tags (h ! r))) M)" by simp
next
  fix i
  assume "i < length (map (\<lambda>(k, r). (k, media_tags (h' ! r)))
           (zip (map fst M) [length h0..<length h0 + length M]))"
  then have i: "i < length M" by simp
  obtain k r where kr: "M ! i = (k, r)" by (cases "M ! i")
  have "h' ! (length h0 + i) = h ! r"
    using i kr by (simp add: h' nth_append Media_from_dict_def Media_to_dict_def)
  then show "map (\<lambda>(k, r). (k, media_tags (h' ! r)))
           (zip (map fst M) [length h0..<length h0 + length M]) ! i =
        map (\<lambda>(k, r). (k, media_tags (h ! r))) M ! i"
    using i kr by simp
qed

lemma load_saved:
  assumes d: "distinct (map fst (media p))"
    and ld: "load_data fuel e (document_of p h r) q h0 fs1 = Some (err, q', h', fs2)"
  shows "err = None \<and>
     tags q' = map (\<lambda>t. TagInfo_new (tag_name t) (tag_type t)) (tags p) \<and>
     name q' = name p \<and> description q' = description p \<and> path q' = path p \<and>
     processors q' = processors p \<and>
     (\<exists>r' new. root q' = Some r' \<and> media_view q' h' = media_view p h @ new \<and>
        fst ` set new =
          file_relpath ` {f \<in> set (all_files r'). file_relpath f \<notin> fst ` set (media p)} \<and>
        (\<forall>kv\<in>set new. snd kv = default_tags_of (tags q')))"
proof -
  let ?ms = "map (\<lambda>(k, r). (k, Media_to_dict (h ! r))) (media p)"
  let ?tags = "map (\<lambda>t. TagInfo_new (tag_name t) (tag_type t)) (tags p)"
  let ?media = "zip (map fst (media p)) [length h0..<length h0 + length (media p)]"
  let ?h1 = "h0 @ map (\<lambda>kv. Media_from_dict (snd kv)) ?ms"
  obtain p1 fs1' where sn: "set_name (name p) q fs1 = (p1, fs1')"
    by (cases "set_name (name p) q fs1")
  from set_name_fields [OF sn] have p1: "name p1 = name p" by (cases p1) simp
  have fst_ms: "map fst ?ms = map fst (media p)" by (simp add: comp_def case_prod_beta)
  have dms: "distinct (map fst ?ms)" using d by (simp only: fst_ms)
  have "load_media ?ms [] h0 =
      ([] @ zip (map fst ?ms) [length h0..<length h0 + length ?ms], ?h1)"
    by (rule load_media_fresh [OF dms]) simp
  then have lm: "load_media ?ms [] h0 = (?media, ?h1)"
    by (simp only: fst_ms append_Nil length_map)
  define p9 where "p9 = (set_extensions e (dir_extensions (Directory_setstate (Directory_getstate r)))
      (p1\<lparr>description := description p, path := path p, tags := ?tags,
          processors := processors p, media := ?media\<rparr>))
      \<lparr>root := Some (Directory_setstate (Directory_getstate r)),
       number_of_files := length ?media\<rparr>"
  have p9_fields: "name p9 = name p" "description p9 = description p" "path p9 = path p"
    "tags p9 = ?tags" "processors p9 = processors p" "media p9 = ?media"
    by (simp_all add: p9_def set_extensions_def p1 Let_def split: option.splits)
  have media_p9: "media (set_extensions e x (p1\<lparr>description := description p, path := path p,
      tags := ?tags, processors := processors p, media := ?media\<rparr>)) = ?media" for x
    by (simp add: set_extensions_def Let_def split: option.splits)
  have lf: "load_fields e (document_of p h r) q h0 fs1 = (None, p9, ?h1, fs1')"
    unfolding p9_def
  proof (rule load_fields_complete [where ts = "map (\<lambda>t. (tag_name t, type_name (tag_type t))) (tags p)"
        and ms = ?ms and nm = "name p"])
    show "load_tags (map (\<lambda>t. (tag_name t, type_name (tag_type t))) (tags p)) = Some ?tags"
      by (rule load_tags_saved)
    show "load_media ?ms [] h0 = (?media, ?h1)" by (rule lm)
    show "set_name (name p) q fs1 = (p1, fs1')" by (rule sn)
  qed (simp_all add: document_of_def)
  have eq: "load_data fuel e (document_of p h r) q h0 fs1 =
      (case scan fuel e False p9 ?h1 of
         None \<Rightarrow> None
       | Some (p10, h2) \<Rightarrow> Some (None, p10, h2, fs1'))"
    by (simp add: load_data_def lf)
  define h1 where "h1 = ?h1"
  from ld have sc: "scan fuel e False p9 h1 = Some (q', h')" and err: "err = None"
    unfolding eq h1_def by (simp_all split: option.splits prod.splits)
  note fr = scan_frame [OF sc]
  from scan_new_keys [OF sc] obtain nm where "\<exists>r' xs. root q' = Some r' \<and>
      media q' = media p9 @ nm \<and> h' = h1 @ xs \<and>
      fst ` set nm = file_relpath ` {f \<in> set (all_files r'). is_new (media p9) f} \<and>
      (\<forall>r\<in>snd ` set nm. length h1 \<le> r \<and> r < length h' \<and>
        media_tags (h' ! r) = default_tags_of (tags p9))" ..
  then obtain r' where "\<exists>xs. root q' = Some r' \<and>
      media q' = media p9 @ nm \<and> h' = h1 @ xs \<and>
      fst ` set nm = file_relpath ` {f \<in> set (all_files r'). is_new (media p9) f} \<and>
      (\<forall>r\<in>snd ` set nm. length h1 \<le> r \<and> r < length h' \<and>
        media_tags (h' ! r) = default_tags_of (tags p9))" ..
  then obtain xs where all: "root q' = Some r' \<and>
      media q' = media p9 @ nm \<and> h' = h1 @ xs \<and>
      fst ` set nm = file_relpath ` {f \<in> set (all_files r'). is_new (media p9) f} \<and>
      (\<forall>r\<in>snd ` set nm. length h1 \<le> r \<and> r < length h' \<and>
        media_tags (h' ! r) = default_tags_of (tags p9))" ..
  from all have r': "root q' = Some r'" by (rule conjunct1)
  from all have m': "media q' = media p9 @ nm" by (rule conjunct1 [OF conjunct2])
  from all have h'1: "h' = h1 @ xs" by (rule conjunct1 [OF conjunct2 [OF conjunct2]])
  from all have keys: "fst ` set nm = file_relpath ` {f \<in> set (all_files r'). is_new (media p9) f}"
    by (rule conjunct1 [OF conjunct2 [OF conjunct2 [OF conjunct2]]])
  from all have dflt: "\<forall>r\<in>snd ` set nm. length h1 \<le> r \<and> r < length h' \<and>
        media_tags (h' ! r) = default_tags_of (tags p9)"
    by (rule conjunct2 [OF conjunct2 [OF conjunct2 [OF conjunct2]]])
  from h'1 have h': "h' = ?h1 @ xs" by (simp only: h1_def)
  define new where "new = map (\<lambda>(k, r). (k, media_tags (h' ! r))) nm"
  have old: "map (\<lambda>(k, r). (k, media_tags (h' ! r))) ?media = media_view p h"
    unfolding media_view_def using h' by (rule view_zip)
  have view: "media_view q' h' = media_view p h @ new"
    by (simp add: media_view_def [of q'] m' p9_fields old new_def)
  have kp9: "fst ` set (media p9) = fst ` set (media p)"
  proof -
    have "map fst (media p9) = map fst (media p)" by (simp add: p9_fields)
    then have "set (map fst (media p9)) = set (map fst (media p))" by simp
    then show ?thesis by simp
  qed
  have new_iff: "is_new (media p9) f \<longleftrightarrow> file_relpath f \<notin> fst ` set (media p)" for f
    by (simp add: is_new_def map_of_eq_None_iff kp9)
  have fst_new: "fst ` set new = fst ` set nm" by (force simp: new_def)
  have k: "fst ` set new =
      file_relpath ` {f \<in> set (all_files r'). file_relpath f \<notin> fst ` set (media p)}"
    by (simp add: fst_new keys new_iff)
  have v: "\<forall>kv\<in>set new. snd kv = default_tags_of (tags q')"
    using dflt by (force simp: new_def fr(4))
  have ex: "\<exists>r' new. root q' = Some r' \<and> media_view q' h' = media_view p h @ new \<and>
        fst ` set new =
          file_relpath ` {f \<in> set (all_files r'). file_relpath f \<notin> fst ` set (media p)} \<and>
        (\<forall>kv\<in>set new. snd kv = default_tags_of (tags q'))"
    using r' view k v by blast
  have "tags q' = ?tags" "name q' = name p" "description q' = description p"
    "path q' = path p" "processors q' = processors p"
    by (simp_all add: fr p9_fields)
  with err ex show ?thesis by blast
qed


lemma load_returns: "\<exists>fuel r. load fuel e fp p h fs = Some r"
proof (cases "source_document fs fp p")
  case None
  then have "\<exists>r. load 0 e fp p h fs = Some r"
    by (auto simp: load_def source_document_def Let_def split: option.splits file_content.splits)
  then show ?thesis by blast
next
  case (Some data)
  then have ld: "load fuel e fp p h fs = load_data fuel e data p h fs" for fuel
    by (auto simp: load_def source_document_def exists_file_def Let_def
        split: option.splits file_content.splits)
  obtain err p9 h1 fs1 where lf: "load_fields e data p h fs = (err, p9, h1, fs1)"
    by (metis prod_cases4)
  show ?thesis
  proof (cases err)
    case None
    from scan_returns [of e p9 "height (snd (setup_root e p9))" h1]
    obtain r where "scan (height (snd (setup_root e p9))) e False p9 h1 = Some r" by auto
    then have "\<exists>r. load (height (snd (setup_root e p9))) e fp p h fs = Some r"
      by (cases r) (simp add: ld load_data_def lf None)
    then show ?thesis by blast
  next
    case (Some x)
    then have "\<exists>r. load 0 e fp p h fs = Some r" by (simp add: ld load_data_def lf)
    then show ?thesis by blast
  qed
qed

text \<open>The round trips of the concrete projects, and a load of the incomplete document.\<close>

lemmas ex_load_defs = load_def load_data_def load_fields_def save_as_def document_of_def
  set_name_def name_changed_def set_extensions_def Directory_setstate_def Media_to_dict_def
  Media_from_dict_def parse_type_def ex_unscanned_def ex_saved_def exists_file_def

lemma ex_roundtrip_unscanned:
  "\<exists>fs1 q' h' fs2.
     save_as ex_env ''/cat/demo.vxn'' ex_unscanned ex_store Map.empty = (None, fs1) \<and>
     load (Suc (Suc 0)) ex_env (Some ''/cat/demo.vxn'') ex_unscanned ex_store fs1 =
       Some (None, q', h', fs2) \<and>
     map fst (media q') = [''a.txt'', ''b.txt'', ''c.txt'', ''sub/d.txt'']"
  by (simp add: ex_load_defs ex_scan_defs)

lemma ex_roundtrip_saved:
  "\<exists>fs1 q' h' fs2 r'.
     save_as ex_env ''/cat/demo.vxn'' ex_saved ex_store_scanned Map.empty = (None, fs1) \<and>
     load (Suc (Suc 0)) ex_env (Some ''/cat/demo.vxn'') Project_new ex_store_scanned fs1 =
       Some (None, q', h', fs2) \<and>
     root q' = Some r' \<and>
     map file_relpath (all_files r') = [''a.txt'', ''c.txt'', ''sub/d.txt'']"
  by (simp add: ex_load_defs ex_scan_defs Project_new_def)

lemma ex_bad_load:
  "\<exists>p' h' fs'.
     load 0 ex_env (Some ''/tmp/bad.vxn'') ex_project ex_store ex_bad_fs =
       Some (Some (KeyError ''tags''), p', h', fs') \<and>
     name p' = ''other'' \<and> description p' = ''text'' \<and> path p' = ''/other''"
  by (simp add: load_def load_data_def load_fields_def ex_bad_fs_def ex_bad_document_def
      ex_project_def set_name_def name_changed_def Let_def split: prod.splits)

subsection \<open>The claims about load and save\<close>

text \<open>
  C5. A project saved with \<^verbatim>\<open>save_as\<close> (which needs a root) and loaded from the same
  file into any project: the load raises no error; the tags are those of the saved
  project, name by name and type by type in the same order, each with the default of its
  type; name, description, path and processors are the saved ones; and \<^verbatim>\<open>media\<close>, by
  relative path and tag contents, is the saved dictionary followed by one entry with the
  default tags for every file reachable from the loaded root whose relative path was not
  a key of the saved dictionary. It is the saved dictionary when there is no such file.
\<close>

theorem save_load_roundtrip:
  assumes d: "distinct (map fst (media p))"
    and sv: "save_as e dest p h fs = (None, fs1)"
    and ld: "load fuel e (Some dest) q h0 fs1 = Some (err, q', h', fs2)"
  shows "err = None \<and>
     tags q' = map (\<lambda>t. TagInfo_new (tag_name t) (tag_type t)) (tags p) \<and>
     name q' = name p \<and> description q' = description p \<and> path q' = path p \<and>
     processors q' = processors p \<and>
     (\<exists>r' new. root q' = Some r' \<and> media_view q' h' = media_view p h @ new \<and>
        fst ` set new =
          file_relpath ` {f \<in> set (all_files r'). file_relpath f \<notin> fst ` set (media p)} \<and>
        (\<forall>kv\<in>set new. snd kv = default_tags_of (tags q')))"
proof -
  from save_as_written [OF sv] obtain r where
    fs1: "fs1 = fs(dest \<mapsto> \<lparr>content = Json (document_of p h r), ctime = clock e\<rparr>)" by blast
  from ld have "load_data fuel e (document_of p h r) q h0 fs1 = Some (err, q', h', fs2)"
    by (simp add: load_def fs1)
  with d show ?thesis by (rule load_saved)
qed

theorem save_load_roundtrip_witness:
  "distinct (map fst (media ex_saved)) \<and>
   (\<exists>fs1 q' h' fs2.
      save_as ex_env ''/cat/demo.vxn'' ex_saved ex_store_scanned Map.empty = (None, fs1) \<and>
      load (Suc (Suc 0)) ex_env (Some ''/cat/demo.vxn'') Project_new ex_store_scanned fs1 =
        Some (None, q', h', fs2) \<and>
      tags q' = tags ex_saved \<and>
      media_view q' h' = media_view ex_saved ex_store_scanned)"
proof -
  have d: "distinct (map fst (media ex_saved))"
    by (simp add: ex_saved_def ex_project_scanned_def)
  from ex_roundtrip_saved obtain fs1 q' h' fs2 r' where
    sv: "save_as ex_env ''/cat/demo.vxn'' ex_saved ex_store_scanned Map.empty = (None, fs1)"
    and ld: "load (Suc (Suc 0)) ex_env (Some ''/cat/demo.vxn'') Project_new ex_store_scanned fs1 =
       Some (None, q', h', fs2)"
    and r': "root q' = Some r'"
    and fl: "map file_relpath (all_files r') = [''a.txt'', ''c.txt'', ''sub/d.txt'']"
    by (elim exE conjE)
  note R = save_load_roundtrip [OF d sv ld]
  from R have t: "tags q' = map (\<lambda>t. TagInfo_new (tag_name t) (tag_type t)) (tags ex_saved)"
    by (elim conjE)
  from R obtain r'' new where r'': "root q' = Some r''"
    and v: "media_view q' h' = media_view ex_saved ex_store_scanned @ new"
    and k'': "fst ` set new =
          file_relpath ` {f \<in> set (all_files r''). file_relpath f \<notin> fst ` set (media ex_saved)}"
    by (elim conjE exE)
  from r' r'' have "r'' = r'" by simp
  with k'' have k: "fst ` set new =
          file_relpath ` {f \<in> set (all_files r'). file_relpath f \<notin> fst ` set (media ex_saved)}"
    by (simp only:)
  have "file_relpath f \<in> fst ` set (media ex_saved)" if "f \<in> set (all_files r')" for f
  proof -
    from that have "file_relpath f \<in> set (map file_relpath (all_files r'))" by simp
    then show ?thesis by (auto simp: fl ex_saved_def ex_project_scanned_def)
  qed
  then have "{f \<in> set (all_files r'). file_relpath f \<notin> fst ` set (media ex_saved)} = {}"
    by simp
  with k have "fst ` set new = {}" by (simp only: image_empty)
  then have "new = []" by simp
  with v have v': "media_view q' h' = media_view ex_saved ex_store_scanned" by simp
  from t have t': "tags q' = tags ex_saved"
    by (simp add: ex_saved_def ex_project_scanned_def ex_project_def tags_default_def
        TagInfo_new_def)
  from sv ld t' v' have "\<exists>fs1 q' h' fs2.
      save_as ex_env ''/cat/demo.vxn'' ex_saved ex_store_scanned Map.empty = (None, fs1) \<and>
      load (Suc (Suc 0)) ex_env (Some ''/cat/demo.vxn'') Project_new ex_store_scanned fs1 =
        Some (None, q', h', fs2) \<and>
      tags q' = tags ex_saved \<and>
      media_view q' h' = media_view ex_saved ex_store_scanned"
    by (intro exI conjI)
  with d show ?thesis by (rule conjI)
qed

text \<open>
  The project before its first scan has the files \<^verbatim>\<open>c.txt\<close> and \<^verbatim>\<open>sub/d.txt\<close> in its
  root and no records for them. Saved and loaded again, it has four keys in \<^verbatim>\<open>media\<close>
  where it had two: the scan at the end of \<^verbatim>\<open>load\<close> has made the records.
\<close>

theorem save_load_counterexample:
  "\<exists>fs1 q' h' fs2.
     save_as ex_env ''/cat/demo.vxn'' ex_unscanned ex_store Map.empty = (None, fs1) \<and>
     load (Suc (Suc 0)) ex_env (Some ''/cat/demo.vxn'') ex_unscanned ex_store fs1 =
       Some (None, q', h', fs2) \<and>
     map fst (media ex_unscanned) = [''a.txt'', ''b.txt''] \<and>
     map fst (media q') = [''a.txt'', ''b.txt'', ''c.txt'', ''sub/d.txt'']"
  using ex_roundtrip_unscanned by (simp add: ex_unscanned_def ex_project_def)

text \<open>
  C6. A load that raises an error while it opens, reads or assigns the document (that is,
  before its final scan) leaves the root, the extensions, the number of files, the time of
  the last save and every record that existed unchanged. When the source
  cannot be opened or is not a document, the project, the store and the filesystem are
  unchanged. When the document has a path but lacks \<^verbatim>\<open>tags\<close>, the error is
  \<^verbatim>\<open>KeyError('tags')\<close>, and name, description and path are already those of the
  document, while tags, processors, media and the store are unchanged; when it lacks
  \<^verbatim>\<open>media\<close>, the dictionary \<^verbatim>\<open>media\<close> and the store are unchanged.
\<close>

theorem load_failure_effects:
  assumes "load fuel e fp p h fs = Some (Some err, p', h', fs')"
  shows "root p' = root p \<and> extensions p' = extensions p \<and>
     number_of_files p' = number_of_files p \<and> last_save_time p' = last_save_time p \<and>
     (\<forall>r<length h. h' ! r = h ! r) \<and>
     (err = IOError \<or> err = ValueError \<longrightarrow> p' = p \<and> h' = h \<and> fs' = fs) \<and>
     (err = KeyError ''tags'' \<longrightarrow>
        (\<exists>data path'. source_document fs fp p = Some data \<and> doc_tags data = None \<and>
           doc_path data = Some path' \<and>
           name p' = (case doc_name data of None \<Rightarrow> [] | Some n \<Rightarrow> n) \<and>
           description p' = (case doc_description data of None \<Rightarrow> [] | Some d \<Rightarrow> d) \<and>
           path p' = path' \<and>
           tags p' = tags p \<and> processors p' = processors p \<and> media p' = media p \<and> h' = h)) \<and>
     (err = KeyError ''media'' \<longrightarrow> media p' = media p \<and> h' = h)"
  using assms
proof (cases rule: load_cases)
  case noop
  then show ?thesis by simp
next
  case missing
  then show ?thesis by simp
next
  case unparsed
  then show ?thesis by simp
next
  case (parsed data)
  from parsed(2) have "load_fields e data p h fs = (Some err, p', h', fs')"
    by (auto simp: load_data_def split: prod.splits option.splits)
  from load_fields_failure [OF this] obtain sf where
    alt: "doc_path data = None \<and> err = TraitError \<and> h' = h \<and>
        p' = p\<lparr>name := (case doc_name data of None \<Rightarrow> [] | Some n \<Rightarrow> n), save_file := sf,
               description := (case doc_description data of None \<Rightarrow> [] | Some d \<Rightarrow> d)\<rparr>
      \<or> (\<exists>path'. doc_path data = Some path' \<and>
            (doc_tags data = None \<and> err = KeyError ''tags'' \<or>
             (\<exists>ts. doc_tags data = Some ts \<and> load_tags ts = None \<and> err = TraitError)) \<and>
            h' = h \<and>
            p' = p\<lparr>name := (case doc_name data of None \<Rightarrow> [] | Some n \<Rightarrow> n), save_file := sf,
               description := (case doc_description data of None \<Rightarrow> [] | Some d \<Rightarrow> d),
               path := path'\<rparr>)
      \<or> (\<exists>path' ts tags'. doc_path data = Some path' \<and> doc_tags data = Some ts \<and>
            load_tags ts = Some tags' \<and> doc_media data = None \<and> err = KeyError ''media'' \<and>
            h' = h \<and>
            p' = p\<lparr>name := (case doc_name data of None \<Rightarrow> [] | Some n \<Rightarrow> n), save_file := sf,
               description := (case doc_description data of None \<Rightarrow> [] | Some d \<Rightarrow> d),
               path := path', tags := tags',
               processors := (case doc_processors data of None \<Rightarrow> [] | Some ps \<Rightarrow> ps)\<rparr>)
      \<or> (\<exists>path' ts tags' ms media'. doc_path data = Some path' \<and> doc_tags data = Some ts \<and>
            load_tags ts = Some tags' \<and> doc_media data = Some ms \<and> doc_root data = None \<and>
            err = TypeError \<and> load_media ms [] h = (media', h') \<and>
            p' = p\<lparr>name := (case doc_name data of None \<Rightarrow> [] | Some n \<Rightarrow> n), save_file := sf,
               description := (case doc_description data of None \<Rightarrow> [] | Some d \<Rightarrow> d),
               path := path', tags := tags',
               processors := (case doc_processors data of None \<Rightarrow> [] | Some ps \<Rightarrow> ps),
               media := media'\<rparr>)"
    by blast
  from alt have nm': "name p' = (case doc_name data of None \<Rightarrow> [] | Some n \<Rightarrow> n)"
    by auto
  from alt have frame: "root p' = root p \<and> extensions p' = extensions p \<and>
     number_of_files p' = number_of_files p \<and> last_save_time p' = last_save_time p"
    by auto
  from alt have st: "\<forall>r<length h. h' ! r = h ! r"
    by (auto dest!: load_media_store simp: nth_append)
  from alt have e1: "err = IOError \<or> err = ValueError \<longrightarrow> p' = p \<and> h' = h \<and> fs' = fs"
    by auto
  from alt parsed(1) nm'
  have e2: "err = KeyError ''tags'' \<longrightarrow>
        (\<exists>data path'. source_document fs fp p = Some data \<and> doc_tags data = None \<and>
           doc_path data = Some path' \<and>
           name p' = (case doc_name data of None \<Rightarrow> [] | Some n \<Rightarrow> n) \<and>
           description p' = (case doc_description data of None \<Rightarrow> [] | Some d \<Rightarrow> d) \<and>
           path p' = path' \<and>
           tags p' = tags p \<and> processors p' = processors p \<and> media p' = media p \<and> h' = h)"
    by auto
  from alt have e3: "err = KeyError ''media'' \<longrightarrow> media p' = media p \<and> h' = h"
    by auto
  from frame st e1 e2 e3 show ?thesis by blast
qed

theorem load_failure_effects_witness:
  "\<exists>p' h' fs'.
     load 0 ex_env (Some ''/tmp/bad.vxn'') ex_project ex_store ex_bad_fs =
       Some (Some (KeyError ''tags''), p', h', fs') \<and>
     root p' = root ex_project \<and> extensions p' = extensions ex_project \<and>
     tags p' = tags ex_project \<and> media p' = media ex_project \<and> h' = ex_store"
proof -
  from ex_bad_load obtain p' h' fs' where
    run: "load 0 ex_env (Some ''/tmp/bad.vxn'') ex_project ex_store ex_bad_fs =
       Some (Some (KeyError ''tags''), p', h', fs')" by blast
  from load_failure_effects [OF run] run show ?thesis by auto
qed

text \<open>
  A document with the name \<^verbatim>\<open>other\<close>, a description and a path, but without \<^verbatim>\<open>tags\<close>:
  the load raises \<^verbatim>\<open>KeyError('tags')\<close> after it has assigned the three fields.
\<close>

theorem load_failure_counterexample:
  "\<exists>p' h' fs'.
     load 0 ex_env (Some ''/tmp/bad.vxn'') ex_project ex_store ex_bad_fs =
       Some (Some (KeyError ''tags''), p', h', fs') \<and>
     name ex_project = ''demo'' \<and> name p' = ''other'' \<and>
     description ex_project = [] \<and> description p' = ''text'' \<and>
     path ex_project = ''/data'' \<and> path p' = ''/other''"
  using ex_bad_load by (simp add: ex_project_def)

text \<open>
  C7. With an empty \<^verbatim>\<open>save_file\<close>, \<^verbatim>\<open>save()\<close> raises \<^verbatim>\<open>IOError\<close> and leaves the project
  and the filesystem as they are. With a non-empty \<^verbatim>\<open>save_file\<close> it runs \<^verbatim>\<open>save_as\<close> on
  that file; when \<^verbatim>\<open>save_as\<close> returns, \<^verbatim>\<open>last_save_time\<close> becomes the time stamp that
  the file has then, and when \<^verbatim>\<open>save_as\<close> raises, so does \<^verbatim>\<open>save\<close>, with
  \<^verbatim>\<open>last_save_time\<close> unchanged.
\<close>

theorem save_needs_save_file:
  "(save_file p = [] \<longrightarrow> save e p h fs = (Some IOError, p, fs)) \<and>
   (save_file p \<noteq> [] \<longrightarrow>
      (\<exists>fs' t. save_as e (save_file p) p h fs = (None, fs') \<and>
          get_file_saved_time fs' (save_file p) = Inr t \<and>
          save e p h fs = (None, p\<lparr>last_save_time := t\<rparr>, fs')) \<or>
      (\<exists>err fs'. save_as e (save_file p) p h fs = (Some err, fs') \<and>
          save e p h fs = (Some err, p, fs')))"
proof -
  have 1: "save_file p = [] \<longrightarrow> save e p h fs = (Some IOError, p, fs)"
    by (simp add: save_def)
  have 2: "(\<exists>fs' t. save_as e (save_file p) p h fs = (None, fs') \<and>
          get_file_saved_time fs' (save_file p) = Inr t \<and>
          save e p h fs = (None, p\<lparr>last_save_time := t\<rparr>, fs')) \<or>
      (\<exists>err fs'. save_as e (save_file p) p h fs = (Some err, fs') \<and>
          save e p h fs = (Some err, p, fs'))"
    if ne: "save_file p \<noteq> []"
  proof (cases "root p")
    case None
    with ne show ?thesis by (simp add: save_def save_as_cases)
  next
    case (Some r)
    with ne show ?thesis
      by (simp add: save_def save_as_cases update_last_save_time_def get_file_saved_time_def)
  qed
  from 1 2 show ?thesis by blast
qed

theorem save_needs_save_file_witness:
  "save_file Project_new = [] \<and>
   save ex_env Project_new [] Map.empty = (Some IOError, Project_new, Map.empty) \<and>
   save_file ex_saved = ''/cat/demo.vxn'' \<and>
   (\<exists>fs'. save ex_env ex_saved ex_store_scanned Map.empty =
        (None, ex_saved\<lparr>last_save_time := clock ex_env\<rparr>, fs') \<and>
      save_as ex_env ''/cat/demo.vxn'' ex_saved ex_store_scanned Map.empty = (None, fs') \<and>
      get_file_saved_time fs' ''/cat/demo.vxn'' = Inr (clock ex_env))"
proof -
  have a: "save_file Project_new = []" by (simp add: Project_new_def)
  have b: "save_file ex_saved = ''/cat/demo.vxn''" by (simp add: ex_saved_def)
  from save_needs_save_file [of Project_new ex_env "[]" Map.empty] a
  have 1: "save ex_env Project_new [] Map.empty = (Some IOError, Project_new, Map.empty)"
    by simp
  have r: "root ex_saved = Some ex_tree_linked" by (simp add: ex_saved_def ex_project_scanned_def)
  from save_needs_save_file [of ex_saved ex_env ex_store_scanned Map.empty] b
  have 2: "\<exists>fs'. save ex_env ex_saved ex_store_scanned Map.empty =
        (None, ex_saved\<lparr>last_save_time := clock ex_env\<rparr>, fs') \<and>
      save_as ex_env ''/cat/demo.vxn'' ex_saved ex_store_scanned Map.empty = (None, fs') \<and>
      get_file_saved_time fs' ''/cat/demo.vxn'' = Inr (clock ex_env)"
    by (auto simp: save_as_cases r get_file_saved_time_def)
  from a b 1 2 show ?thesis by blast
qed

text \<open>
  C8. \<^verbatim>\<open>load()\<close> without a source, when no file exists at \<^verbatim>\<open>save_file\<close>, returns
  without an error and leaves the project, the store and the filesystem unchanged.
\<close>

theorem load_without_source_is_noop:
  "\<not> exists_file fs (save_file p) \<Longrightarrow> load fuel e None p h fs = Some (None, p, h, fs)"
  by (simp add: load_def)

theorem load_without_source_is_noop_witness:
  "\<not> exists_file Map.empty (save_file Project_new) \<and>
   load 0 ex_env None Project_new [] Map.empty = Some (None, Project_new, [], Map.empty)"
proof -
  have h: "\<not> exists_file Map.empty (save_file Project_new)"
    by (simp add: exists_file_def)
  from load_without_source_is_noop [OF h] h show ?thesis by blast
qed

section \<open>Properties of the names of save files\<close>

lemma sanitize_name_example: "sanitize_name ''My  Project (v2)!'' = ''my_project_v2''"
  by (simp add: sanitize_name_def is_upper_def is_space_def is_word_def)

lemma not_upper_lower_char: "\<not> is_upper (lower_char c)"
  by (cases c) (auto simp: is_upper_def)

lemma sanitize_name_word: "c \<in> set (sanitize_name n) \<Longrightarrow> is_word c"
  by (simp add: sanitize_name_def)

lemma sub_spaces_set: "set (sub_spaces cs) \<subseteq> insert CHR ''_'' (set cs)"
  by (induction cs rule: sub_spaces.induct) auto

lemma sanitize_name_lower: "c \<in> set (sanitize_name n) \<Longrightarrow> \<not> is_upper c"
proof -
  assume "c \<in> set (sanitize_name n)"
  then have "c \<in> set (sub_spaces (map lower_char n))" by (simp add: sanitize_name_def)
  with sub_spaces_set have "c = CHR ''_'' \<or> c \<in> set (map lower_char n)" by blast
  then show ?thesis
  proof
    assume "c = CHR ''_''"
    then show ?thesis by (simp add: is_upper_def)
  next
    assume "c \<in> set (map lower_char n)"
    then show ?thesis by (auto simp: not_upper_lower_char)
  qed
qed

lemma word_not_sep: "is_word c \<Longrightarrow> c \<noteq> CHR ''/'' \<and> c \<noteq> CHR ''.''"
  by (auto simp: is_word_def)

lemma rfind_split_sep:
  assumes "CHR ''/'' \<notin> set x"
  shows "rfind_split (d @ CHR ''/'' # x) = (d @ ''/'', x)"
proof -
  have "takeWhile (\<lambda>c. c \<noteq> CHR ''/'') (rev x @ CHR ''/'' # rev d) = rev x"
    using assms by (subst takeWhile_append2) auto
  then show ?thesis by (simp add: rfind_split_def Let_def)
qed

lemma rfind_split_plain:
  assumes "CHR ''/'' \<notin> set x"
  shows "rfind_split x = ([], x)"
proof -
  have "takeWhile (\<lambda>c. c \<noteq> CHR ''/'') (rev x) = rev x"
    using assms by (auto simp: takeWhile_eq_all_conv)
  then show ?thesis by (simp add: rfind_split_def Let_def del: takeWhile_eq_all_conv)
qed

lemma rfind_split_slashes:
  assumes "CHR ''/'' \<notin> set x"
  shows "rfind_split (replicate n CHR ''/'' @ x) = (replicate n CHR ''/'', x)"
proof (cases n)
  case 0
  with assms show ?thesis by (simp add: rfind_split_plain)
next
  case (Suc m)
  have eq: "replicate (Suc m) CHR ''/'' = replicate m CHR ''/'' @ ''/''"
    by (simp add: replicate_append_same)
  have "rfind_split ((replicate m CHR ''/'' @ ''/'') @ x) = (replicate m CHR ''/'' @ ''/'', x)"
    using rfind_split_sep [OF assms, of "replicate m CHR ''/''"] by simp
  then show ?thesis by (simp only: Suc eq)
qed

lemma rstrip_slash_sep:
  assumes "d \<noteq> []" and "last d \<noteq> CHR ''/''"
  shows "rstrip_slash (d @ ''/'') = d"
proof -
  from assms obtain c cs where r: "rev d = c # cs" "c \<noteq> CHR ''/''"
    by (cases "rev d") (auto simp: last_rev [symmetric] simp del: last_rev)
  then show ?thesis by (simp add: rstrip_slash_def)
qed

lemma join_sep:
  assumes "d \<noteq> []" and "last d \<noteq> CHR ''/''" and "CHR ''/'' \<notin> set x"
  shows "join d x = d @ CHR ''/'' # x"
proof -
  from assms(3) have "\<not> (x \<noteq> [] \<and> hd x = CHR ''/'')" by (cases x) auto
  with assms(1,2) show ?thesis by (simp add: join_def)
qed

lemma join_no_sep:
  assumes "d = [] \<or> last d = CHR ''/''" and "CHR ''/'' \<notin> set x"
  shows "join d x = d @ x"
proof -
  from assms(2) have "\<not> (x \<noteq> [] \<and> hd x = CHR ''/'')" by (cases x) auto
  with assms(1) show ?thesis by (auto simp: join_def)
qed

lemma basename_join:
  assumes "d \<noteq> []" and "last d \<noteq> CHR ''/''" and "CHR ''/'' \<notin> set x"
  shows "basename (join d x) = x"
  by (simp add: join_sep [OF assms] basename_def rfind_split_sep [OF assms(3)])

lemma not_all_slashes:
  assumes "d \<noteq> []" and "last d \<noteq> CHR ''/''"
  shows "d @ ''/'' \<noteq> replicate (length (d @ ''/'')) CHR ''/''"
proof
  assume "d @ ''/'' = replicate (length (d @ ''/'')) CHR ''/''"
  then have "set (d @ ''/'') \<subseteq> {CHR ''/''}" by (metis set_replicate_conv_if empty_subsetI subset_refl)
  moreover from assms(1) have "last d \<in> set d" by simp
  ultimately show False using assms(2) by auto
qed

lemma dirname_join:
  assumes "d \<noteq> []" and "last d \<noteq> CHR ''/''" and "CHR ''/'' \<notin> set x"
  shows "dirname (join d x) = d"
proof -
  have h: "fst (rfind_split (join d x)) = d @ ''/''"
    by (simp add: join_sep [OF assms] rfind_split_sep [OF assms(3)])
  have "dirname (join d x) = rstrip_slash (d @ ''/'')"
    unfolding dirname_def Let_def h using not_all_slashes [OF assms(1,2)] by simp
  then show ?thesis by (simp only: rstrip_slash_sep [OF assms(1,2)])
qed

lemma rstrip_slash_form:
  assumes "h \<noteq> replicate (length h) CHR ''/''"
  shows "rstrip_slash h \<noteq> [] \<and> last (rstrip_slash h) \<noteq> CHR ''/''"
proof -
  let ?r = "dropWhile (\<lambda>c. c = CHR ''/'') (rev h)"
  have ne: "?r \<noteq> []"
  proof
    assume "?r = []"
    then have "\<forall>c\<in>set h. c = CHR ''/''" by (simp add: dropWhile_eq_Nil_conv)
    then have "replicate (length h) CHR ''/'' = h" by (rule replicate_length_same)
    with assms show False by simp
  qed
  then have "hd ?r \<noteq> CHR ''/''" using hd_dropWhile [of "\<lambda>c. c = CHR ''/''" "rev h"] by simp
  with ne show ?thesis by (simp add: rstrip_slash_def last_rev)
qed

lemma dirname_form:
  "dirname p = [] \<or> dirname p = replicate (length (dirname p)) CHR ''/'' \<or>
   (dirname p \<noteq> [] \<and> last (dirname p) \<noteq> CHR ''/'')"
proof -
  let ?h = "fst (rfind_split p)"
  show ?thesis
  proof (cases "?h \<noteq> [] \<and> ?h \<noteq> replicate (length ?h) CHR ''/''")
    case True
    then have "dirname p = rstrip_slash ?h" by (simp add: dirname_def Let_def)
    with True rstrip_slash_form [of ?h] show ?thesis by simp
  next
    case False
    then have "dirname p = ?h" unfolding dirname_def Let_def by (simp only: if_False)
    with False show ?thesis by auto
  qed
qed

lemma dirname_join_dirname:
  assumes x: "CHR ''/'' \<notin> set x"
  shows "dirname (join (dirname p) x) = dirname p"
proof -
  let ?d = "dirname p"
  from dirname_form [of p] consider (empty) "?d = []"
    | (slashes) "?d \<noteq> []" "?d = replicate (length ?d) CHR ''/''"
    | (plain) "?d \<noteq> []" "last ?d \<noteq> CHR ''/''" by blast
  then show ?thesis
  proof cases
    case empty
    then show ?thesis
      using x by (simp add: join_no_sep dirname_def rfind_split_plain)
  next
    case slashes
    define n where "n = length ?d"
    from slashes have d: "?d = replicate n CHR ''/''" and n: "n \<noteq> 0" by (simp_all add: n_def)
    then have "last ?d = CHR ''/''" by (metis last_replicate)
    then have j: "join ?d x = replicate n CHR ''/'' @ x"
      using x d by (simp add: join_no_sep)
    have "dirname (replicate n CHR ''/'' @ x) = replicate n CHR ''/''"
      unfolding dirname_def Let_def rfind_split_slashes [OF x] by simp
    then show ?thesis by (simp only: j) (simp only: d [symmetric])
  next
    case plain
    then show ?thesis using x by (rule dirname_join)
  qed
qed

lemma splitext_vxn:
  assumes "CHR ''/'' \<notin> set s" and "CHR ''.'' \<notin> set s"
  shows "splitext (s @ ''.vxn'') = (if s = [] then (''.vxn'', []) else (s, ''.vxn''))"
proof -
  have nos: "CHR ''/'' \<notin> set (s @ ''.vxn'')" using assms(1) by simp
  have tw: "takeWhile (\<lambda>c. c \<noteq> CHR ''.'') (rev (s @ ''.vxn'')) = ''nxv''"
    by simp
  have ex: "(\<exists>c\<in>set s. c \<noteq> CHR ''.'') \<longleftrightarrow> s \<noteq> []"
    using assms(2) by (cases s) auto
  show ?thesis
    unfolding splitext_def rfind_split_plain [OF nos] Let_def prod.case tw
    using ex by simp
qed

lemma sanitize_name_no_sep:
  "CHR ''/'' \<notin> set (sanitize_name n)" "CHR ''.'' \<notin> set (sanitize_name n)"
  using sanitize_name_word [of "CHR ''/''" n] sanitize_name_word [of "CHR ''.''" n]
  by (auto simp: is_word_def)

lemma save_file_default_eq:
  assumes nm: "name p \<noteq> []" and d: "get_project_dir e \<noteq> []"
    and l: "last (get_project_dir e) \<noteq> CHR ''/''"
  shows "save_file_default e fs p =
     (let d = get_project_dir e; s = sanitize_name (name p); f = d @ ''/'' @ s @ ''.vxn''
      in if exists_file fs f
         then (if s = [] then d @ ''/.vxn_a'' else d @ ''/'' @ s @ ''_a.vxn'')
         else f)"
proof -
  define dir where "dir = get_project_dir e"
  define s where "s = sanitize_name (name p)"
  define x where "x = s @ ''.vxn''"
  define f where "f = join dir x"
  have ns: "CHR ''/'' \<notin> set s" "CHR ''.'' \<notin> set s"
    unfolding s_def by (rule sanitize_name_no_sep)+
  from d l have d': "dir \<noteq> []" and l': "last dir \<noteq> CHR ''/''" by (simp_all add: dir_def)
  have x: "CHR ''/'' \<notin> set x" using ns(1) by (simp add: x_def)
  have j: "f = dir @ ''/'' @ s @ ''.vxn''"
    using join_sep [OF d' l' x] by (simp add: f_def x_def)
  have b: "basename f = x" unfolding f_def using d' l' x by (rule basename_join)
  have dn: "dirname f = dir" unfolding f_def using d' l' x by (rule dirname_join)
  have sp: "splitext x = (if s = [] then (''.vxn'', []) else (s, ''.vxn''))"
    unfolding x_def using ns by (rule splitext_vxn)
  have suffixed: "join dir (fst (splitext x) @ ''_a'' @ snd (splitext x)) =
      (if s = [] then dir @ ''/.vxn_a'' else dir @ ''/'' @ s @ ''_a.vxn'')"
  proof (cases "s = []")
    case True
    have "CHR ''/'' \<notin> set ''.vxn_a''" by simp
    from join_sep [OF d' l' this] True show ?thesis by (simp add: sp)
  next
    case False
    have "CHR ''/'' \<notin> set (s @ ''_a.vxn'')" using ns(1) by simp
    from join_sep [OF d' l' this] False show ?thesis by (simp add: sp)
  qed
  have gne: "get_non_existing_filename fs f =
      (if exists_file fs f then join dir (fst (splitext x) @ ''_a'' @ snd (splitext x)) else f)"
    unfolding get_non_existing_filename_def b dn by (simp add: case_prod_beta)
  have "save_file_default e fs p = get_non_existing_filename fs f"
    using nm by (simp add: save_file_default_def Let_def f_def x_def s_def dir_def)
  also have "\<dots> = (if exists_file fs f
         then (if s = [] then dir @ ''/.vxn_a'' else dir @ ''/'' @ s @ ''_a.vxn'')
         else f)"
    by (simp only: gne suffixed)
  finally show ?thesis
    unfolding Let_def dir_def [symmetric] s_def [symmetric] by (simp only: j)
qed

lemma name_changed_again:
  assumes "nm \<noteq> []" and "n0 \<noteq> []" and eq: "sanitize_name nm = sanitize_name n0"
  shows "name_changed nm (fst (name_changed n0 p fs)) fs' = (fst (name_changed n0 p fs), fs')"
proof -
  define x where "x = sanitize_name n0 @ ''.vxn''"
  define new where "new = join (dirname (save_file p)) x"
  define p1 where "p1 = fst (name_changed n0 p fs)"
  have x: "CHR ''/'' \<notin> set x" using sanitize_name_no_sep(1) [of n0] by (simp add: x_def)
  have sf: "save_file p1 = new"
    using assms(2) by (simp add: p1_def name_changed_def Let_def new_def x_def)
  have "dirname new = dirname (save_file p)" unfolding new_def using x by (rule dirname_join_dirname)
  then have "join (dirname (save_file p1)) (sanitize_name nm @ ''.vxn'') = save_file p1"
    by (simp add: sf eq new_def x_def)
  then have "name_changed nm p1 fs' = (p1, fs')"
    using assms(1) by (simp add: name_changed_def Let_def)
  then show ?thesis by (simp only: p1_def)
qed

text \<open>
  C9. The sanitized name consists of lower-case letters, digits and underscores. The
  catalog directory is \<^verbatim>\<open>~/.vixen\<close> with the home directory expanded. For a non-empty
  name, the default save file is the sanitized name with the suffix \<^verbatim>\<open>.vxn\<close> in the
  catalog directory, or, when that file exists, the same with \<^verbatim>\<open>_a\<close> before the suffix
  (after it when the sanitized name is empty). A change of the name to a non-empty name
  whose save path, the sanitized name with \<^verbatim>\<open>.vxn\<close> in the directory of the old save file,
  differs from the old save file assigns that path to \<^verbatim>\<open>save_file\<close> and, when the old
  file exists, moves it there; when the path is the old save file, or the name is empty,
  nothing changes. After such a change, a further change to a name with the same
  sanitized form changes nothing.
\<close>

theorem save_file_naming:
  "(\<forall>c\<in>set (sanitize_name n). is_word c \<and> \<not> is_upper c) \<and>
   get_project_dir e = expanduser e ''~/.vixen'' \<and>
   (name p \<noteq> [] \<longrightarrow> get_project_dir e \<noteq> [] \<longrightarrow> last (get_project_dir e) \<noteq> CHR ''/'' \<longrightarrow>
      save_file_default e fs p =
        (let d = get_project_dir e; s = sanitize_name (name p); f = d @ ''/'' @ s @ ''.vxn''
         in if exists_file fs f
            then (if s = [] then d @ ''/.vxn_a'' else d @ ''/'' @ s @ ''_a.vxn'')
            else f)) \<and>
   (nm \<noteq> [] \<longrightarrow>
      (let new = join (dirname (save_file p)) (sanitize_name nm @ ''.vxn'')
       in if new \<noteq> save_file p
          then name_changed nm p fs =
                 (p\<lparr>save_file := new\<rparr>,
                  if exists_file fs (save_file p)
                  then (fs(new := fs (save_file p)))(save_file p := None)
                  else fs)
          else name_changed nm p fs = (p, fs))) \<and>
   (nm = [] \<longrightarrow> name_changed nm p fs = (p, fs)) \<and>
   (nm \<noteq> [] \<longrightarrow> n0 \<noteq> [] \<longrightarrow> sanitize_name nm = sanitize_name n0 \<longrightarrow>
      name_changed nm (fst (name_changed n0 p fs)) fs' = (fst (name_changed n0 p fs), fs'))"
proof -
  have 1: "\<forall>c\<in>set (sanitize_name n). is_word c \<and> \<not> is_upper c"
    using sanitize_name_word sanitize_name_lower by blast
  have 2: "get_project_dir e = expanduser e ''~/.vixen''"
    by (simp add: get_project_dir_def join_def)
  have 3: "name p \<noteq> [] \<longrightarrow> get_project_dir e \<noteq> [] \<longrightarrow> last (get_project_dir e) \<noteq> CHR ''/'' \<longrightarrow>
      save_file_default e fs p =
        (let d = get_project_dir e; s = sanitize_name (name p); f = d @ ''/'' @ s @ ''.vxn''
         in if exists_file fs f
            then (if s = [] then d @ ''/.vxn_a'' else d @ ''/'' @ s @ ''_a.vxn'')
            else f)"
    using save_file_default_eq by blast
  have 4: "nm \<noteq> [] \<longrightarrow>
      (let new = join (dirname (save_file p)) (sanitize_name nm @ ''.vxn'')
       in if new \<noteq> save_file p
          then name_changed nm p fs =
                 (p\<lparr>save_file := new\<rparr>,
                  if exists_file fs (save_file p)
                  then (fs(new := fs (save_file p)))(save_file p := None)
                  else fs)
          else name_changed nm p fs = (p, fs))"
    by (simp add: name_changed_def move_def Let_def)
  have 5: "nm = [] \<longrightarrow> name_changed nm p fs = (p, fs)"
    by (simp add: name_changed_def)
  have 6: "nm \<noteq> [] \<longrightarrow> n0 \<noteq> [] \<longrightarrow> sanitize_name nm = sanitize_name n0 \<longrightarrow>
      name_changed nm (fst (name_changed n0 p fs)) fs' = (fst (name_changed n0 p fs), fs')"
    using name_changed_again by blast
  from 1 2 3 4 5 6 show ?thesis by blast
qed

theorem save_file_naming_witness:
  "sanitize_name ''My  Project (v2)!'' = ''my_project_v2'' \<and>
   list_all (\<lambda>c. is_word c \<and> \<not> is_upper c) (sanitize_name ''My  Project (v2)!'') \<and>
   exists_file ex_catalog ''/cat/demo.vxn'' \<and>
   save_file_default ex_env Map.empty ex_named = ''~/.vixen/my_project_v2.vxn'' \<and>
   name_changed ''New Name'' ex_named ex_catalog =
     (ex_named\<lparr>save_file := ''/cat/new_name.vxn''\<rparr>,
      (ex_catalog(''/cat/new_name.vxn'' := ex_catalog ''/cat/demo.vxn''))(''/cat/demo.vxn'' := None)) \<and>
   name_changed [] ex_named ex_catalog = (ex_named, ex_catalog) \<and>
   name_changed ''new   NAME?'' (fst (name_changed ''New Name'' ex_named ex_catalog)) Map.empty =
     (fst (name_changed ''New Name'' ex_named ex_catalog), Map.empty)"
proof -
  note T = save_file_naming [where n = "''My  Project (v2)!''" and e = ex_env and p = ex_named
      and fs = Map.empty and nm = "''New Name''" and ?n0.0 = "''New Name''" and fs' = Map.empty]
  note U = save_file_naming [where n = "[]" and e = ex_env and p = ex_named
      and fs = ex_catalog and nm = "''New Name''" and ?n0.0 = "''New Name''" and fs' = Map.empty]
  note V = save_file_naming [where n = "[]" and e = ex_env and p = ex_named
      and fs = ex_catalog and nm = "''new   NAME?''" and ?n0.0 = "''New Name''" and fs' = Map.empty]
  note W = save_file_naming [where n = "[]" and e = ex_env and p = ex_named
      and fs = ex_catalog and nm = "[]" and ?n0.0 = "''New Name''" and fs' = Map.empty]
  have san: "sanitize_name ''My  Project (v2)!'' = ''my_project_v2''"
    by (simp add: sanitize_name_def is_upper_def is_space_def is_word_def)
  have san2: "sanitize_name ''New Name'' = ''new_name''" "sanitize_name ''new   NAME?'' = ''new_name''"
    by (simp_all add: sanitize_name_def is_upper_def is_space_def is_word_def)
  have nm: "name ex_named = ''My  Project (v2)!''" and sf: "save_file ex_named = ''/cat/demo.vxn''"
    by (simp_all add: ex_named_def ex_saved_def)
  have dir: "get_project_dir ex_env = ''~/.vixen''"
    by (simp add: get_project_dir_def join_def ex_env_def)
  have 1: "list_all (\<lambda>c. is_word c \<and> \<not> is_upper c) (sanitize_name ''My  Project (v2)!'')"
    using T by (simp add: list_all_iff)
  have ex: "exists_file ex_catalog ''/cat/demo.vxn''"
    by (simp add: exists_file_def ex_catalog_def)
  have 2: "save_file_default ex_env Map.empty ex_named = ''~/.vixen/my_project_v2.vxn''"
    using T by (simp add: nm dir san exists_file_def Let_def)
  have dn: "dirname ''/cat/demo.vxn'' = ''/cat''"
    by (simp add: dirname_def rfind_split_def rstrip_slash_def)
  have 3: "name_changed ''New Name'' ex_named ex_catalog =
     (ex_named\<lparr>save_file := ''/cat/new_name.vxn''\<rparr>,
      (ex_catalog(''/cat/new_name.vxn'' := ex_catalog ''/cat/demo.vxn''))(''/cat/demo.vxn'' := None))"
    using U ex by (simp add: sf dn san2 join_def Let_def)
  have 4: "name_changed [] ex_named ex_catalog = (ex_named, ex_catalog)"
    using W by simp
  have 5: "name_changed ''new   NAME?'' (fst (name_changed ''New Name'' ex_named ex_catalog)) Map.empty =
     (fst (name_changed ''New Name'' ex_named ex_catalog), Map.empty)"
    using V by (simp add: san2)
  from san 1 ex 2 3 4 5 show ?thesis by blast
qed
section \<open>The store invariant\<close>

text \<open>
  A new project satisfies \<open>store_ok\<close>, and \<^verbatim>\<open>scan\<close>, \<^verbatim>\<open>update_tags\<close> and \<^verbatim>\<open>load\<close> keep it: the
  records of a project never share an object and every key of \<^verbatim>\<open>media\<close> names a record of the store.
\<close>

lemma store_ok_new: "store_ok Project_new h"
  by (simp add: store_ok_def refs_def Project_new_def)

lemma scan_store_ok:
  assumes ok: "store_ok p h" and run: "scan fuel e rf p h = Some (p', h')"
  shows "store_ok p' h'"
proof -
  from scan_media_append [OF run] obtain nm xs where m: "media p' = media p @ nm"
    and h': "h' = h @ xs"
    and dj: "fst ` set nm \<inter> fst ` set (media p) = {}"
    and dk: "distinct (map fst nm)" and dr: "distinct (map snd nm)"
    and rg: "\<forall>r\<in>snd ` set nm. length h \<le> r \<and> r < length h'"
    by (elim exE conjE)
  from ok have k0: "distinct (map fst (media p))" and r0: "distinct (map snd (media p))"
    and v0: "\<forall>r\<in>snd ` set (media p). r < length h"
    by (simp_all add: store_ok_def refs_def)
  have 1: "distinct (map fst (media p'))" using k0 dk dj by (auto simp: m)
  have "snd ` set (media p) \<inter> snd ` set nm = {}"
  proof -
    have False if "r \<in> snd ` set (media p)" "r \<in> snd ` set nm" for r
    proof -
      from v0 that(1) have "r < length h" by blast
      moreover from rg that(2) have "length h \<le> r" by blast
      ultimately show False by simp
    qed
    then show ?thesis by blast
  qed
  with r0 dr have 2: "distinct (map snd (media p'))" by (simp add: m)
  have 3: "\<forall>r\<in>snd ` set (media p'). r < length h'"
  proof
    fix r assume "r \<in> snd ` set (media p')"
    then have "r \<in> snd ` set (media p) \<or> r \<in> snd ` set nm" by (auto simp: m)
    then show "r < length h'"
    proof
      assume "r \<in> snd ` set (media p)"
      with v0 have "r < length h" by blast
      then show ?thesis by (simp add: h')
    next
      assume "r \<in> snd ` set nm"
      with rg show ?thesis by blast
    qed
  qed
  from 1 2 3 show ?thesis by (simp add: store_ok_def refs_def)
qed

lemma migrate_records_length: "length (snd (migrate_records removed added rs h)) = length h"
proof (induction rs arbitrary: h)
  case Nil
  then show ?case by simp
next
  case (Cons r rs)
  obtain e t1 where d: "del_tags removed (media_tags (h ! r)) = (e, t1)"
    by (cases "del_tags removed (media_tags (h ! r))")
  show ?case
  proof (cases e)
    case None
    with d Cons.IH [of "h[r := (h ! r)\<lparr>media_tags := set_tags added t1\<rparr>]"] show ?thesis by simp
  next
    case (Some a)
    with d show ?thesis by simp
  qed
qed

lemma update_tags_store_ok:
  assumes "store_ok p h" and "update_tags new_tags p h = (e, p', h')"
  shows "store_ok p' h'"
proof -
  from assms(2) have "media p' = media p"
    by (auto simp: update_tags_def Let_def split: prod.splits)
  moreover have "length h' = length h"
    if "migrate_records removed added rs h = (e, h')" for removed added rs
    using migrate_records_length [of removed added rs h] that by simp
  with assms(2) have "length h' = length h"
    by (auto simp: update_tags_def Let_def split: prod.splits)
  ultimately have "media p' = media p" and "length h' = length h" by simp_all
  with assms(1) show ?thesis by (simp add: store_ok_def refs_def)
qed

lemma load_media_store_ok:
  assumes "load_media ms d h = (d', h')"
    and "distinct (map fst d)" and "distinct (map snd d)" and "\<forall>r\<in>snd ` set d. r < length h"
  shows "distinct (map fst d') \<and> distinct (map snd d') \<and> (\<forall>r\<in>snd ` set d'. r < length h')"
  using assms
proof (induction ms arbitrary: d h)
  case Nil
  then show ?case by simp
next
  case (Cons a ms)
  obtain k kw where a: "a = (k, kw)" by (cases a)
  let ?d1 = "AList.update k (length h) d"
  let ?h1 = "h @ [Media_from_dict kw]"
  from Cons.prems(1) have run: "load_media ms ?d1 ?h1 = (d', h')" by (simp add: a)
  have 1: "distinct (map fst ?d1)" using Cons.prems(2) by (rule distinct_update)
  from Cons.prems(4) have "length h \<notin> snd ` set d" by auto
  with Cons.prems(3) have 2: "distinct (map snd ?d1)" by (rule update_snd_distinct)
  have "snd ` set ?d1 \<subseteq> insert (length h) (snd ` set d)" by (rule update_snd_subset)
  with Cons.prems(4) have 3: "\<forall>r\<in>snd ` set ?d1. r < length ?h1" by fastforce
  from Cons.IH [OF run 1 2 3] show ?case .
qed

lemma load_store_ok:
  assumes ok: "store_ok p h" and run: "load fuel e fp p h fs = Some (err, p', h', fs')"
  shows "store_ok p' h'"
  using run
proof (cases rule: load_cases)
  case noop
  with ok show ?thesis by simp
next
  case missing
  with ok show ?thesis by simp
next
  case unparsed
  with ok show ?thesis by simp
next
  case (parsed data)
  obtain e1 p9 h1 fs1 where lf: "load_fields e data p h fs = (e1, p9, h1, fs1)"
    by (metis prod_cases4)
  have ok9: "store_ok p9 h1"
  proof -
    obtain p1 fsa where sn: "set_name (case doc_name data of None \<Rightarrow> [] | Some n \<Rightarrow> n) p fs = (p1, fsa)"
      by (cases "set_name (case doc_name data of None \<Rightarrow> [] | Some n \<Rightarrow> n) p fs")
    from set_name_fields [OF sn] have m1: "media p1 = media p" by (cases p1) simp
    have me: "media (set_extensions e x q) = media q" for x q
      by (simp add: set_extensions_def Let_def split: option.splits)
    from lf sn m1 have "media p9 = media p \<and> h1 = h \<or> (\<exists>ms. load_media ms [] h = (media p9, h1))"
      by (auto simp: load_fields_def Let_def me split: option.splits prod.splits)
    then show ?thesis
    proof
      assume "media p9 = media p \<and> h1 = h"
      with ok show ?thesis by (simp add: store_ok_def refs_def)
    next
      assume "\<exists>ms. load_media ms [] h = (media p9, h1)"
      then obtain ms where "load_media ms [] h = (media p9, h1)" ..
      from load_media_store_ok [OF this] show ?thesis by (simp add: store_ok_def refs_def)
    qed
  qed
  show ?thesis
  proof (cases e1)
    case None
    with parsed(2) lf obtain "scan fuel e False p9 h1 = Some (p', h')"
      by (auto simp: load_data_def split: option.splits)
    with ok9 show ?thesis by (rule scan_store_ok)
  next
    case (Some x)
    with parsed(2) lf have "p' = p9" "h' = h1" by (simp_all add: load_data_def)
    with ok9 show ?thesis by simp
  qed
qed


end
